theory Spec2Isabelle
  imports Complex_Main "HOL-Library.Word"
begin

section \<open>AKCoreSampler: the sampler engine of AudioKit Core\<close>

text \<open>
  A shallow embedding of \<^verbatim>\<open>AKCoreSampler.cpp\<close>. Conventions:
  \<^item> C \<^verbatim>\<open>int\<close> and \<^verbatim>\<open>unsigned\<close> values that the code compares or casts are
    \<open>32 word\<close>: \<open>sint\<close> reads an \<^verbatim>\<open>int\<close>, \<open>unat\<close> an \<^verbatim>\<open>unsigned\<close>, and a cast
    between the two keeps the bits.
  \<^item> C \<^verbatim>\<open>float\<close> is idealised as \<open>real\<close>: rounding and NaN are outside the model.
  \<^item> The fixed-size arrays \<^verbatim>\<open>keyMap[128]\<close>, \<^verbatim>\<open>tuningTable[128]\<close> and
    \<^verbatim>\<open>voice[64]\<close> are functions of the index. An index that comes from a caller
    is checked against the array's size before the read, and a read outside the
    array (undefined in C++) is the result \<open>Inl OutOfBounds\<close>.
  \<^item> The bank and the key map hold pointers to buffers that are never written
    after the load, so the model keeps the buffers themselves in the lists.
  \<^item> \<^verbatim>\<open>SamplerVoice\<close>, \<^verbatim>\<open>SampleBuffer\<close>, \<^verbatim>\<open>SustainPedalLogic\<close> and the
    vibrato oscillator are not among the sources. Their bookkeeping is modelled
    from the specification; the DSP (\<^verbatim>\<open>prepToGetSamples\<close>, \<^verbatim>\<open>getSamples\<close>,
    \<^verbatim>\<open>vibratoLFO.getSample\<close>) is a parameter of \<open>render\<close>.
  \<^item> Every call the sampler makes on a voice, and every \<^verbatim>\<open>stopNote\<close> request, is
    appended to the field \<open>calls\<close>, so that a theorem can say which calls a path
    makes and with which arguments.
  \<^item> Left out: \<^verbatim>\<open>init\<close> (it hands the sample rate to the envelopes, the oscillator
    and the voices), \<^verbatim>\<open>stopAllVoices\<close> (it sets \<^verbatim>\<open>stoppingAllVoices\<close> and then waits in
    a loop that only the \<open>render\<close> of another thread can end), and the setters and
    getters of the envelope parameters.
\<close>

subsection \<open>Constants and macros\<close>

definition MAX_POLYPHONY :: nat where
  "MAX_POLYPHONY = 64"

definition MIDI_NOTENUMBERS :: nat where
  "MIDI_NOTENUMBERS = 128"

definition NOTE_HZ :: "real \<Rightarrow> real" where
  "NOTE_HZ midiNoteNumber = 440 * 2 powr ((midiNoteNumber - 69) / 12)"

datatype fault = OutOfBounds

subsection \<open>Sample buffers and descriptors\<close>

record KeyMappedSampleBuffer =
  sampleRate :: real
  channelCount :: int
  sampleCount :: int
  samples :: "real list"
  startPoint :: real
  endPoint :: real
  isLooping :: bool
  loopStartPoint :: real
  loopEndPoint :: real
  noteNumber :: "32 word"
  noteFrequency :: real
  minimumNoteNumber :: "32 word"
  maximumNoteNumber :: "32 word"
  minimumVelocity :: "32 word"
  maximumVelocity :: "32 word"

record AKSampleDescriptor =
  sd_noteNumber :: "32 word"
  sd_noteFrequency :: real
  sd_minimumNoteNumber :: "32 word"
  sd_maximumNoteNumber :: "32 word"
  sd_minimumVelocity :: "32 word"
  sd_maximumVelocity :: "32 word"
  sd_isLooping :: bool
  sd_loopStartPoint :: real
  sd_loopEndPoint :: real
  sd_startPoint :: real
  sd_endPoint :: real

text \<open>\<open>sdd_data\<close> is the memory behind the pointer \<^verbatim>\<open>sdd.data\<close>: the float at each offset.\<close>

record AKSampleDataDescriptor =
  sampleDescriptor :: AKSampleDescriptor
  sdd_sampleRate :: real
  sdd_isInterleaved :: bool
  sdd_channelCount :: int
  sdd_sampleCount :: int
  sdd_data :: "nat \<Rightarrow> real"

text \<open>
  Modelled from the spec: the constructor \<^verbatim>\<open>KeyMappedSampleBuffer()\<close>, and
  \<^verbatim>\<open>SampleBuffer::init\<close> and \<^verbatim>\<open>SampleBuffer::setData\<close> (SampleBuffer.hpp is not among
  the sources). Section 3 of the spec: the data is planar PCM of length
  \<open>channel_count * sample_count\<close>, and \<open>start_point\<close>, \<open>end_point\<close> default to 0 and
  \<open>sample_count\<close>. The spec does not say what a write outside the data does; the
  model drops it.
\<close>

definition KeyMappedSampleBuffer_new :: KeyMappedSampleBuffer where
  "KeyMappedSampleBuffer_new =
     \<lparr>sampleRate = 0, channelCount = 0, sampleCount = 0, samples = [],
      startPoint = 0, endPoint = 0, isLooping = False,
      loopStartPoint = 0, loopEndPoint = 0, noteNumber = 0, noteFrequency = 0,
      minimumNoteNumber = 0, maximumNoteNumber = 0,
      minimumVelocity = 0, maximumVelocity = 0\<rparr>"

definition SampleBuffer_init ::
    "KeyMappedSampleBuffer \<Rightarrow> real \<Rightarrow> int \<Rightarrow> int \<Rightarrow> KeyMappedSampleBuffer" where
  "SampleBuffer_init pBuf rate channels count =
     pBuf\<lparr>sampleRate := rate, channelCount := channels, sampleCount := count,
          samples := replicate (nat (channels * count)) 0,
          startPoint := 0, endPoint := real_of_int count\<rparr>"

definition setData :: "KeyMappedSampleBuffer \<Rightarrow> nat \<Rightarrow> real \<Rightarrow> KeyMappedSampleBuffer" where
  "setData pBuf index x = pBuf\<lparr>samples := (samples pBuf)[index := x]\<rparr>"

subsection \<open>Voices\<close>

text \<open>
  Modelled from the spec: \<^verbatim>\<open>SamplerVoice\<close> (SamplerVoice.hpp is not among the
  sources). Section 3: a voice holds \<open>note_number\<close> (negative when idle), a reference
  to the buffer it plays, and DSP state, which the spec leaves opaque (the field
  \<open>dsp\<close>). Section 4.4: \<open>start\<close> and \<open>restart_new_note\<close> begin a key with a buffer,
  \<open>restart_same_note\<close> retriggers with a buffer and keeps the pitch bookkeeping,
  \<open>restart_new_note_legato\<close> changes the key and reuses the sample, \<open>release\<close>
  enters the release stage, \<open>stop\<close> forces the voice idle.
\<close>

record 'v SamplerVoice =
  voiceNoteNumber :: "32 word"
  voiceSampleBuffer :: "KeyMappedSampleBuffer option"
  dsp :: 'v

definition SamplerVoice_start ::
    "'v SamplerVoice \<Rightarrow> 32 word \<Rightarrow> real \<Rightarrow> real \<Rightarrow> real \<Rightarrow> KeyMappedSampleBuffer \<Rightarrow> 'v SamplerVoice" where
  "SamplerVoice_start v note rate frequency volume pBuf =
     v\<lparr>voiceNoteNumber := note, voiceSampleBuffer := Some pBuf\<rparr>"

definition SamplerVoice_restartSameNote ::
    "'v SamplerVoice \<Rightarrow> real \<Rightarrow> KeyMappedSampleBuffer option \<Rightarrow> 'v SamplerVoice" where
  "SamplerVoice_restartSameNote v volume pBuf = v\<lparr>voiceSampleBuffer := pBuf\<rparr>"

definition SamplerVoice_restartNewNote ::
    "'v SamplerVoice \<Rightarrow> 32 word \<Rightarrow> real \<Rightarrow> real \<Rightarrow> real \<Rightarrow> KeyMappedSampleBuffer \<Rightarrow> 'v SamplerVoice" where
  "SamplerVoice_restartNewNote v note rate frequency volume pBuf =
     v\<lparr>voiceNoteNumber := note, voiceSampleBuffer := Some pBuf\<rparr>"

definition SamplerVoice_restartNewNoteLegato ::
    "'v SamplerVoice \<Rightarrow> 32 word \<Rightarrow> real \<Rightarrow> real \<Rightarrow> 'v SamplerVoice" where
  "SamplerVoice_restartNewNoteLegato v note rate frequency = v\<lparr>voiceNoteNumber := note\<rparr>"

definition SamplerVoice_release :: "'v SamplerVoice \<Rightarrow> bool \<Rightarrow> 'v SamplerVoice" where
  "SamplerVoice_release v loopThru = v"

definition SamplerVoice_stop :: "'v SamplerVoice \<Rightarrow> 'v SamplerVoice" where
  "SamplerVoice_stop v = v\<lparr>voiceNoteNumber := - 1\<rparr>"

text \<open>
  The calls the sampler makes. The first argument of a voice call is the voice's index;
  the last argument of \<open>CallPrepToGetSamples\<close> and of \<open>CallGetSamples\<close> is the value
  the call returned.
\<close>

datatype 'p call =
    CallStart nat "32 word" real real real KeyMappedSampleBuffer
  | CallRestartSameNote nat real "KeyMappedSampleBuffer option"
  | CallRestartNewNote nat "32 word" real real real KeyMappedSampleBuffer
  | CallRestartNewNoteLegato nat "32 word" real real
  | CallRelease nat bool
  | CallStop nat
  | CallPrepToGetSamples nat "32 word" bool
  | CallGetSamples nat "32 word" 'p 'p bool
  | CallStopNote "32 word" bool

subsection \<open>Sustain pedal logic\<close>

text \<open>
  Modelled from the spec: \<^verbatim>\<open>SustainPedalLogic\<close> (SustainPedalLogic.hpp is not among
  the sources), after section 4.5 of the spec.
\<close>

record SustainPedalLogic =
  keysDown :: "nat \<Rightarrow> bool"
  keysSustaining :: "nat \<Rightarrow> bool"
  pedalIsDown :: bool

definition keyDownAction :: "SustainPedalLogic \<Rightarrow> nat \<Rightarrow> SustainPedalLogic" where
  "keyDownAction p k = p\<lparr>keysDown := (keysDown p)(k := True),
                           keysSustaining := (keysSustaining p)(k := False)\<rparr>"

definition keyUpAction :: "SustainPedalLogic \<Rightarrow> nat \<Rightarrow> bool \<times> SustainPedalLogic" where
  "keyUpAction p k =
     (let p1 = p\<lparr>keysDown := (keysDown p)(k := False)\<rparr> in
      if pedalIsDown p then (False, p1\<lparr>keysSustaining := (keysSustaining p1)(k := True)\<rparr>)
      else (True, p1))"

definition pedalDown :: "SustainPedalLogic \<Rightarrow> SustainPedalLogic" where
  "pedalDown p = p\<lparr>pedalIsDown := True\<rparr>"

definition pedalUp :: "SustainPedalLogic \<Rightarrow> SustainPedalLogic" where
  "pedalUp p = p\<lparr>keysSustaining := (\<lambda>k. False), pedalIsDown := False\<rparr>"

definition isNoteSustaining :: "SustainPedalLogic \<Rightarrow> nat \<Rightarrow> bool" where
  "isNoteSustaining p k = keysSustaining p k"

definition isAnyKeyDown :: "SustainPedalLogic \<Rightarrow> bool" where
  "isAnyKeyDown p = list_ex (keysDown p) [0..<MIDI_NOTENUMBERS]"

definition firstKeyDown :: "SustainPedalLogic \<Rightarrow> int" where
  "firstKeyDown p =
     (case find (keysDown p) [0..<MIDI_NOTENUMBERS] of None \<Rightarrow> - 1 | Some k \<Rightarrow> int k)"

subsection \<open>The sampler\<close>

text \<open>
  The members of \<^verbatim>\<open>AKCoreSampler\<close> and of its \<^verbatim>\<open>InternalData\<close> that the functions
  below read or write. \<open>'v\<close> is the DSP state of a voice, \<open>'l\<close> the state of the
  vibrato oscillator, \<open>'p\<close> the type of the output pointers.
\<close>

record ('v, 'l, 'p) AKCoreSampler =
  currentSampleRate :: real
  isKeyMapValid :: bool
  isFilterEnabled :: bool
  masterVolume :: real
  pitchOffset :: real
  vibratoDepth :: real
  isMonophonic :: bool
  isLegato :: bool
  cutoffMultiple :: real
  keyTracking :: real
  cutoffEnvelopeStrength :: real
  filterEnvelopeVelocityScaling :: real
  linearResonance :: real
  loopThruRelease :: bool
  stoppingAllVoices :: bool
  lastPlayedNoteNumber :: "32 word"
  sampleBufferList :: "KeyMappedSampleBuffer list"
  keyMap :: "nat \<Rightarrow> KeyMappedSampleBuffer list"
  voice :: "nat \<Rightarrow> 'v SamplerVoice"
  vibratoLFO :: 'l
  pedalLogic :: SustainPedalLogic
  tuningTable :: "nat \<Rightarrow> real"
  calls :: "'p call list"

text \<open>
  The constructor. It leaves \<^verbatim>\<open>lastPlayedNoteNumber\<close> uninitialised, and the states
  of the voices and of the oscillator come from their own constructors: the three
  are arguments here. The entries of the arrays beyond their size do not exist in
  the program; the model fills them with a fixed value that is never read.
\<close>

definition AKCoreSampler_new ::
    "'v \<Rightarrow> 'l \<Rightarrow> 32 word \<Rightarrow> ('v, 'l, 'p) AKCoreSampler" where
  "AKCoreSampler_new d l n =
     \<lparr>currentSampleRate = 44100, isKeyMapValid = False, isFilterEnabled = False,
      masterVolume = 1, pitchOffset = 0, vibratoDepth = 0,
      isMonophonic = False, isLegato = False, cutoffMultiple = 4, keyTracking = 1,
      cutoffEnvelopeStrength = 20, filterEnvelopeVelocityScaling = 0,
      linearResonance = 1 / 2, loopThruRelease = False, stoppingAllVoices = False,
      lastPlayedNoteNumber = n, sampleBufferList = [], keyMap = (\<lambda>i. []),
      voice = (\<lambda>i. \<lparr>voiceNoteNumber = - 1, voiceSampleBuffer = None, dsp = d\<rparr>),
      vibratoLFO = l,
      pedalLogic = \<lparr>keysDown = (\<lambda>k. False), keysSustaining = (\<lambda>k. False),
                    pedalIsDown = False\<rparr>,
      tuningTable = (\<lambda>i. if i < 128 then NOTE_HZ (real i) else 0),
      calls = []\<rparr>"

definition deinit :: "('v, 'l, 'p) AKCoreSampler \<Rightarrow> ('v, 'l, 'p) AKCoreSampler" where
  "deinit s =
     s\<lparr>isKeyMapValid := False, sampleBufferList := [],
       keyMap := (\<lambda>i. if i < MIDI_NOTENUMBERS then [] else keyMap s i)\<rparr>"

subsection \<open>loadSampleData\<close>

text \<open>
  One turn of the de-interleaving loop: \<open>p\<close> is the offset the pointer \<^verbatim>\<open>pData\<close> has
  reached.
\<close>

definition load_interleaved ::
    "AKSampleDataDescriptor \<Rightarrow> nat \<Rightarrow> KeyMappedSampleBuffer \<times> nat \<Rightarrow> KeyMappedSampleBuffer \<times> nat" where
  "load_interleaved sdd i = (\<lambda>(pBuf, p).
     let pBuf1 = setData pBuf i (sdd_data sdd p) in
     if sdd_channelCount sdd > 1
     then (setData pBuf1 (nat (sdd_sampleCount sdd) + i) (sdd_data sdd (p + 1)), p + 2)
     else (pBuf1, p + 1))"

definition load_planar ::
    "AKSampleDataDescriptor \<Rightarrow> nat \<Rightarrow> KeyMappedSampleBuffer \<times> nat \<Rightarrow> KeyMappedSampleBuffer \<times> nat" where
  "load_planar sdd i = (\<lambda>(pBuf, p). (setData pBuf i (sdd_data sdd p), p + 1))"

text \<open>
  The function is \<^verbatim>\<open>void\<close> and has no failing path. The buffer is pushed on the
  bank before it is filled, through a pointer; the model appends the filled buffer.
\<close>

definition loadSampleData ::
    "('v, 'l, 'p) AKCoreSampler \<Rightarrow> AKSampleDataDescriptor \<Rightarrow> ('v, 'l, 'p) AKCoreSampler" where
  "loadSampleData s sdd =
     (let d = sampleDescriptor sdd;
          pBuf0 = KeyMappedSampleBuffer_new
                    \<lparr>minimumNoteNumber := sd_minimumNoteNumber d,
                     maximumNoteNumber := sd_maximumNoteNumber d,
                     minimumVelocity := sd_minimumVelocity d,
                     maximumVelocity := sd_maximumVelocity d\<rparr>;
          pBuf1 = SampleBuffer_init pBuf0 (sdd_sampleRate sdd) (sdd_channelCount sdd)
                    (sdd_sampleCount sdd);
          pBuf2 = (if sdd_isInterleaved sdd
                   then fst (fold (load_interleaved sdd) [0..<nat (sdd_sampleCount sdd)] (pBuf1, 0))
                   else fst (fold (load_planar sdd)
                               [0..<nat (sdd_channelCount sdd * sdd_sampleCount sdd)] (pBuf1, 0)));
          pBuf3 = pBuf2\<lparr>noteNumber := sd_noteNumber d, noteFrequency := sd_noteFrequency d\<rparr>;
          pBuf4 = (if sd_startPoint d > 0 then pBuf3\<lparr>startPoint := sd_startPoint d\<rparr> else pBuf3);
          pBuf5 = (if sd_endPoint d > 0 then pBuf4\<lparr>endPoint := sd_endPoint d\<rparr> else pBuf4);
          pBuf6 = pBuf5\<lparr>isLooping := sd_isLooping d\<rparr>;
          pBuf7 = (if isLooping pBuf6
                   then pBuf6\<lparr>loopStartPoint :=
                                 (if sd_loopStartPoint d > 1 then sd_loopStartPoint d
                                  else endPoint pBuf6 * sd_loopStartPoint d),
                               loopEndPoint :=
                                 (if sd_loopEndPoint d > 1 then sd_loopEndPoint d
                                  else endPoint pBuf6 * sd_loopEndPoint d)\<rparr>
                   else pBuf6)
      in s\<lparr>sampleBufferList := sampleBufferList s @ [pBuf7]\<rparr>)"

subsection \<open>lookupSample\<close>

text \<open>
  The scan over the bucket. \<^verbatim>\<open>(int)velocity\<close> reads the unsigned argument as signed:
  \<open>sint velocity\<close>.
\<close>

fun lookupSample_scan ::
    "KeyMappedSampleBuffer list \<Rightarrow> 32 word \<Rightarrow> KeyMappedSampleBuffer option" where
  "lookupSample_scan [] velocity = None"
| "lookupSample_scan (pBuf # rest) velocity =
     (if sint (minimumVelocity pBuf) < 0 \<or> sint (maximumVelocity pBuf) < 0 then Some pBuf
      else if sint velocity \<ge> sint (minimumVelocity pBuf) \<and>
              sint velocity \<le> sint (maximumVelocity pBuf) then Some pBuf
      else lookupSample_scan rest velocity)"

text \<open>The result \<open>Inr None\<close> is the null pointer.\<close>

definition lookupSample ::
    "('v, 'l, 'p) AKCoreSampler \<Rightarrow> 32 word \<Rightarrow> 32 word \<Rightarrow> fault + KeyMappedSampleBuffer option" where
  "lookupSample s note velocity =
     (if \<not> unat note < MIDI_NOTENUMBERS then Inl OutOfBounds
      else if length (keyMap s (unat note)) = 1 then Inr (Some (hd (keyMap s (unat note))))
      else Inr (lookupSample_scan (keyMap s (unat note)) velocity))"

subsection \<open>Tuning and key maps\<close>

definition setNoteFrequency ::
    "('v, 'l, 'p) AKCoreSampler \<Rightarrow> 32 word \<Rightarrow> real \<Rightarrow> fault + ('v, 'l, 'p) AKCoreSampler" where
  "setNoteFrequency s note frequency =
     (if 0 \<le> sint note \<and> sint note < int MIDI_NOTENUMBERS
      then Inr (s\<lparr>tuningTable := (tuningTable s)(nat (sint note) := frequency)\<rparr>)
      else Inl OutOfBounds)"

text \<open>\<^verbatim>\<open>fabsf(NOTE_HZ(pBuf->noteNumber) - noteFreq)\<close>\<close>

definition distance :: "KeyMappedSampleBuffer \<Rightarrow> real \<Rightarrow> real" where
  "distance pBuf noteFreq = \<bar>NOTE_HZ (real_of_int (sint (noteNumber pBuf))) - noteFreq\<bar>"

text \<open>The first scan of the bank, from \<^verbatim>\<open>minDistance = 1000000.0f\<close>.\<close>

definition scan_minDistance :: "KeyMappedSampleBuffer list \<Rightarrow> real \<Rightarrow> real" where
  "scan_minDistance bank noteFreq =
     fold (\<lambda>pBuf minDistance.
             if distance pBuf noteFreq < minDistance then distance pBuf noteFreq
             else minDistance)
          bank 1000000"

text \<open>The second scan: \<^verbatim>\<open>push_back\<close> on the bucket of note \<open>nn\<close>.\<close>

definition scan_push ::
    "KeyMappedSampleBuffer list \<Rightarrow> real \<Rightarrow> real \<Rightarrow> KeyMappedSampleBuffer list
       \<Rightarrow> KeyMappedSampleBuffer list" where
  "scan_push bank noteFreq minDistance bucket =
     fold (\<lambda>pBuf b. if distance pBuf noteFreq = minDistance then b @ [pBuf] else b)
          bank bucket"

definition clearKeyMap :: "('v, 'l, 'p) AKCoreSampler \<Rightarrow> ('v, 'l, 'p) AKCoreSampler" where
  "clearKeyMap s =
     fold (\<lambda>i s'. s'\<lparr>keyMap := (keyMap s')(i := [])\<rparr>) [0..<MIDI_NOTENUMBERS] s"

definition buildSimpleKeyMap_note ::
    "nat \<Rightarrow> ('v, 'l, 'p) AKCoreSampler \<Rightarrow> ('v, 'l, 'p) AKCoreSampler" where
  "buildSimpleKeyMap_note nn s =
     (let noteFreq = tuningTable s nn;
          minDistance = scan_minDistance (sampleBufferList s) noteFreq
      in s\<lparr>keyMap := (keyMap s)
              (nn := scan_push (sampleBufferList s) noteFreq minDistance (keyMap s nn))\<rparr>)"

definition buildSimpleKeyMap :: "('v, 'l, 'p) AKCoreSampler \<Rightarrow> ('v, 'l, 'p) AKCoreSampler" where
  "buildSimpleKeyMap s =
     (let s1 = clearKeyMap (s\<lparr>isKeyMapValid := False\<rparr>);
          s2 = fold buildSimpleKeyMap_note [0..<MIDI_NOTENUMBERS] s1
      in s2\<lparr>isKeyMapValid := True\<rparr>)"

definition buildKeyMap_note ::
    "nat \<Rightarrow> ('v, 'l, 'p) AKCoreSampler \<Rightarrow> ('v, 'l, 'p) AKCoreSampler" where
  "buildKeyMap_note nn s =
     (let noteFreq = tuningTable s nn in
      s\<lparr>keyMap := (keyMap s)
           (nn := fold (\<lambda>pBuf b.
                          if noteFreq \<ge> NOTE_HZ (real_of_int (sint (minimumNoteNumber pBuf))) \<and>
                             noteFreq \<le> NOTE_HZ (real_of_int (sint (maximumNoteNumber pBuf)))
                          then b @ [pBuf] else b)
                       (sampleBufferList s) (keyMap s nn))\<rparr>)"

definition buildKeyMap :: "('v, 'l, 'p) AKCoreSampler \<Rightarrow> ('v, 'l, 'p) AKCoreSampler" where
  "buildKeyMap s =
     (let s1 = clearKeyMap (s\<lparr>isKeyMapValid := False\<rparr>);
          s2 = fold buildKeyMap_note [0..<MIDI_NOTENUMBERS] s1
      in s2\<lparr>isKeyMapValid := True\<rparr>)"

subsection \<open>Calls on a voice\<close>

text \<open>Each applies the operation to \<^verbatim>\<open>voice[i]\<close> and records the call.\<close>

definition voice_start ::
    "('v, 'l, 'p) AKCoreSampler \<Rightarrow> nat \<Rightarrow> 32 word \<Rightarrow> real \<Rightarrow> real \<Rightarrow> real
       \<Rightarrow> KeyMappedSampleBuffer \<Rightarrow> ('v, 'l, 'p) AKCoreSampler" where
  "voice_start s i note rate frequency volume pBuf =
     s\<lparr>voice := (voice s)(i := SamplerVoice_start (voice s i) note rate frequency volume pBuf),
       calls := calls s @ [CallStart i note rate frequency volume pBuf]\<rparr>"

definition voice_restartSameNote ::
    "('v, 'l, 'p) AKCoreSampler \<Rightarrow> nat \<Rightarrow> real \<Rightarrow> KeyMappedSampleBuffer option
       \<Rightarrow> ('v, 'l, 'p) AKCoreSampler" where
  "voice_restartSameNote s i volume pBuf =
     s\<lparr>voice := (voice s)(i := SamplerVoice_restartSameNote (voice s i) volume pBuf),
       calls := calls s @ [CallRestartSameNote i volume pBuf]\<rparr>"

definition voice_restartNewNote ::
    "('v, 'l, 'p) AKCoreSampler \<Rightarrow> nat \<Rightarrow> 32 word \<Rightarrow> real \<Rightarrow> real \<Rightarrow> real
       \<Rightarrow> KeyMappedSampleBuffer \<Rightarrow> ('v, 'l, 'p) AKCoreSampler" where
  "voice_restartNewNote s i note rate frequency volume pBuf =
     s\<lparr>voice := (voice s)(i := SamplerVoice_restartNewNote (voice s i) note rate frequency volume pBuf),
       calls := calls s @ [CallRestartNewNote i note rate frequency volume pBuf]\<rparr>"

definition voice_restartNewNoteLegato ::
    "('v, 'l, 'p) AKCoreSampler \<Rightarrow> nat \<Rightarrow> 32 word \<Rightarrow> real \<Rightarrow> real
       \<Rightarrow> ('v, 'l, 'p) AKCoreSampler" where
  "voice_restartNewNoteLegato s i note rate frequency =
     s\<lparr>voice := (voice s)(i := SamplerVoice_restartNewNoteLegato (voice s i) note rate frequency),
       calls := calls s @ [CallRestartNewNoteLegato i note rate frequency]\<rparr>"

definition voice_release ::
    "('v, 'l, 'p) AKCoreSampler \<Rightarrow> nat \<Rightarrow> bool \<Rightarrow> ('v, 'l, 'p) AKCoreSampler" where
  "voice_release s i loopThru =
     s\<lparr>voice := (voice s)(i := SamplerVoice_release (voice s i) loopThru),
       calls := calls s @ [CallRelease i loopThru]\<rparr>"

definition voice_stop :: "('v, 'l, 'p) AKCoreSampler \<Rightarrow> nat \<Rightarrow> ('v, 'l, 'p) AKCoreSampler" where
  "voice_stop s i =
     s\<lparr>voice := (voice s)(i := SamplerVoice_stop (voice s i)),
       calls := calls s @ [CallStop i]\<rparr>"

subsection \<open>Note lifecycle\<close>

text \<open>
  \<^verbatim>\<open>pVoice->noteNumber == noteNumber\<close> compares an \<^verbatim>\<open>int\<close> with an \<^verbatim>\<open>unsigned\<close>: the
  \<^verbatim>\<open>int\<close> is converted, so the comparison is equality of the words. The result is the
  index of the voice found.
\<close>

definition voicePlayingNote :: "('v, 'l, 'p) AKCoreSampler \<Rightarrow> 32 word \<Rightarrow> nat option" where
  "voicePlayingNote s note =
     find (\<lambda>i. voiceNoteNumber (voice s i) = note) [0..<MAX_POLYPHONY]"

text \<open>\<^verbatim>\<open>velocity / 127.0f\<close>\<close>

definition volume_of :: "32 word \<Rightarrow> real" where
  "volume_of velocity = real (unat velocity) / 127"

text \<open>The polyphonic search for a free voice, over the indices still to visit.\<close>

fun play_free_voice ::
    "('v, 'l, 'p) AKCoreSampler \<Rightarrow> 32 word \<Rightarrow> 32 word \<Rightarrow> real \<Rightarrow> nat list
       \<Rightarrow> fault + ('v, 'l, 'p) AKCoreSampler" where
  "play_free_voice s note velocity noteFreq [] = Inr s"
| "play_free_voice s note velocity noteFreq (i # rest) =
     (if sint (voiceNoteNumber (voice s i)) < 0
      then (case lookupSample s note velocity of
              Inl e \<Rightarrow> Inl e
            | Inr None \<Rightarrow> Inr s
            | Inr (Some pBuf) \<Rightarrow>
                Inr ((voice_start s i note (currentSampleRate s) noteFreq
                        (volume_of velocity) pBuf)
                     \<lparr>lastPlayedNoteNumber := note\<rparr>))
      else play_free_voice s note velocity noteFreq rest)"

definition play ::
    "('v, 'l, 'p) AKCoreSampler \<Rightarrow> 32 word \<Rightarrow> 32 word \<Rightarrow> bool
       \<Rightarrow> fault + ('v, 'l, 'p) AKCoreSampler" where
  "play s note velocity anotherKeyWasDown =
     (if stoppingAllVoices s then Inr s
      else if \<not> unat note < MIDI_NOTENUMBERS then Inl OutOfBounds
      else
        let noteFreq = tuningTable s (unat note) in
        if \<not> isKeyMapValid s \<or> length (sampleBufferList s) = 0 then Inr s
        else if isMonophonic s then
          (if isLegato s \<and> anotherKeyWasDown then
             (if sint (voiceNoteNumber (voice s 0)) \<ge> 0
              then Inr ((voice_restartNewNoteLegato s 0 note (currentSampleRate s) noteFreq)
                        \<lparr>lastPlayedNoteNumber := note\<rparr>)
              else (case lookupSample s note velocity of
                      Inl e \<Rightarrow> Inl e
                    | Inr None \<Rightarrow> Inr s
                    | Inr (Some pBuf) \<Rightarrow>
                        Inr ((voice_start s 0 note (currentSampleRate s) noteFreq
                                (volume_of velocity) pBuf)
                             \<lparr>lastPlayedNoteNumber := note\<rparr>)))
           else
             (case lookupSample s note velocity of
                Inl e \<Rightarrow> Inl e
              | Inr None \<Rightarrow> Inr s
              | Inr (Some pBuf) \<Rightarrow>
                  Inr ((if sint (voiceNoteNumber (voice s 0)) \<ge> 0
                        then voice_restartNewNote s 0 note (currentSampleRate s) noteFreq
                               (volume_of velocity) pBuf
                        else voice_start s 0 note (currentSampleRate s) noteFreq
                               (volume_of velocity) pBuf)
                       \<lparr>lastPlayedNoteNumber := note\<rparr>)))
        else
          (case voicePlayingNote s note of
             Some i \<Rightarrow>
               (case lookupSample s note velocity of
                  Inl e \<Rightarrow> Inl e
                | Inr pBuf \<Rightarrow> Inr (voice_restartSameNote s i (volume_of velocity) pBuf))
           | None \<Rightarrow>
               play_free_voice s note velocity noteFreq
                 [0..<(if isMonophonic s then 1 else MAX_POLYPHONY)]))"

definition playNote ::
    "('v, 'l, 'p) AKCoreSampler \<Rightarrow> 32 word \<Rightarrow> 32 word \<Rightarrow> fault + ('v, 'l, 'p) AKCoreSampler" where
  "playNote s note velocity =
     (let anotherKeyWasDown = isAnyKeyDown (pedalLogic s);
          s1 = s\<lparr>pedalLogic := keyDownAction (pedalLogic s) (unat note)\<rparr>
      in play s1 note velocity anotherKeyWasDown)"

text \<open>
  In the monophonic branch \<open>key\<close> is the \<^verbatim>\<open>int\<close> that \<^verbatim>\<open>firstKeyDown\<close> returned; it
  indexes \<^verbatim>\<open>tuningTable\<close> and, cast to \<^verbatim>\<open>unsigned\<close>, is the note handed on.
\<close>

definition stop ::
    "('v, 'l, 'p) AKCoreSampler \<Rightarrow> 32 word \<Rightarrow> bool \<Rightarrow> fault + ('v, 'l, 'p) AKCoreSampler" where
  "stop s note immediate =
     (case voicePlayingNote s note of
        None \<Rightarrow> Inr s
      | Some i \<Rightarrow>
          if immediate then Inr (voice_stop s i)
          else if isMonophonic s then
            (let key = firstKeyDown (pedalLogic s) in
             if key < 0 then Inr (voice_release s i (loopThruRelease s))
             else if \<not> nat key < MIDI_NOTENUMBERS then Inl OutOfBounds
             else if isLegato s
             then Inr (voice_restartNewNoteLegato s i (word_of_int key) (currentSampleRate s)
                         (tuningTable s (nat key)))
             else
               (case lookupSample s (word_of_int key) 100 of
                  Inl e \<Rightarrow> Inl e
                | Inr None \<Rightarrow> Inr s
                | Inr (Some pBuf) \<Rightarrow>
                    Inr (if sint (voiceNoteNumber (voice s i)) \<ge> 0
                         then voice_restartNewNote s i (word_of_int key) (currentSampleRate s)
                                (tuningTable s (nat key)) (volume_of 100) pBuf
                         else voice_start s i (word_of_int key) (currentSampleRate s)
                                (tuningTable s (nat key)) (volume_of 100) pBuf)))
          else Inr (voice_release s i (loopThruRelease s)))"

text \<open>
  \<^verbatim>\<open>immediate || keyUpAction(noteNumber)\<close>: the right operand is evaluated only when
  \<open>immediate\<close> is false.
\<close>

definition stopNote ::
    "('v, 'l, 'p) AKCoreSampler \<Rightarrow> 32 word \<Rightarrow> bool \<Rightarrow> fault + ('v, 'l, 'p) AKCoreSampler" where
  "stopNote s note immediate =
     (let s0 = s\<lparr>calls := calls s @ [CallStopNote note immediate]\<rparr> in
      if immediate then stop s0 note immediate
      else
        (case keyUpAction (pedalLogic s0) (unat note) of
           (shouldStop, p) \<Rightarrow>
             if shouldStop then stop (s0\<lparr>pedalLogic := p\<rparr>) note immediate
             else Inr (s0\<lparr>pedalLogic := p\<rparr>)))"

text \<open>The loop of \<^verbatim>\<open>sustainPedal(false)\<close> over the note numbers still to visit.\<close>

fun sustainPedal_up ::
    "('v, 'l, 'p) AKCoreSampler \<Rightarrow> nat list \<Rightarrow> fault + ('v, 'l, 'p) AKCoreSampler" where
  "sustainPedal_up s [] = Inr s"
| "sustainPedal_up s (nn # rest) =
     (if isNoteSustaining (pedalLogic s) nn
      then (case stop s (of_nat nn) False of
              Inl e \<Rightarrow> Inl e
            | Inr s1 \<Rightarrow> sustainPedal_up s1 rest)
      else sustainPedal_up s rest)"

definition sustainPedal ::
    "('v, 'l, 'p) AKCoreSampler \<Rightarrow> bool \<Rightarrow> fault + ('v, 'l, 'p) AKCoreSampler" where
  "sustainPedal s down =
     (if down then Inr (s\<lparr>pedalLogic := pedalDown (pedalLogic s)\<rparr>)
      else (case sustainPedal_up s [0..<MIDI_NOTENUMBERS] of
              Inl e \<Rightarrow> Inl e
            | Inr s1 \<Rightarrow> Inr (s1\<lparr>pedalLogic := pedalUp (pedalLogic s1)\<rparr>)))"

definition restartVoices :: "('v, 'l, 'p) AKCoreSampler \<Rightarrow> ('v, 'l, 'p) AKCoreSampler" where
  "restartVoices s = s\<lparr>stoppingAllVoices := False\<rparr>"

subsection \<open>render\<close>

text \<open>
  The DSP of a voice and of the oscillator, as parameters: \<^verbatim>\<open>prepToGetSamples\<close>
  returns whether the voice has ended, and the voice after the call;
  \<^verbatim>\<open>getSamples\<close> receives the two output pointers and the memory \<open>'m\<close> they point
  into, and returns whether the sample ran out, the voice and the memory after the
  call; \<^verbatim>\<open>vibratoLFO.getSample\<close> returns the sample and the oscillator after the call.
\<close>

type_synonym 'v prepToGetSamples =
  "'v SamplerVoice \<Rightarrow> 32 word \<Rightarrow> real \<Rightarrow> real \<Rightarrow> real \<Rightarrow> real \<Rightarrow> real \<Rightarrow> real \<Rightarrow> real
     \<Rightarrow> bool \<times> 'v SamplerVoice"

type_synonym ('v, 'p, 'm) getSamples =
  "'v SamplerVoice \<Rightarrow> 32 word \<Rightarrow> 'p \<Rightarrow> 'p \<Rightarrow> 'm \<Rightarrow> bool \<times> 'v SamplerVoice \<times> 'm"

text \<open>\<^verbatim>\<open>stopNote(nn, true)\<close> inside the loop; the output memory is not touched.\<close>

definition retire ::
    "('v, 'l, 'p) AKCoreSampler \<Rightarrow> 'm \<Rightarrow> 32 word \<Rightarrow> fault + ('v, 'l, 'p) AKCoreSampler \<times> 'm" where
  "retire s m nn = (case stopNote s nn True of Inl e \<Rightarrow> Inl e | Inr s1 \<Rightarrow> Inr (s1, m))"

text \<open>The body of the loop, for \<^verbatim>\<open>voice[i]\<close>. The three operands of \<^verbatim>\<open>||\<close> are evaluated
  from the left, and the first true one ends the evaluation.\<close>

definition render_voice ::
    "'v prepToGetSamples \<Rightarrow> ('v, 'p, 'm) getSamples \<Rightarrow> 32 word \<Rightarrow> 'p \<Rightarrow> 'p \<Rightarrow> real \<Rightarrow> real
       \<Rightarrow> bool \<Rightarrow> nat \<Rightarrow> ('v, 'l, 'p) AKCoreSampler \<times> 'm
       \<Rightarrow> fault + ('v, 'l, 'p) AKCoreSampler \<times> 'm" where
  "render_voice prep gets count pOutLeft pOutRight pitchDev cutoffMul allowSampleRunout i =
     (\<lambda>(s, m).
        let nn = voiceNoteNumber (voice s i) in
        if sint nn \<ge> 0 then
          (if stoppingAllVoices s then retire s m nn
           else
             (case prep (voice s i) count (masterVolume s) pitchDev cutoffMul (keyTracking s)
                     (cutoffEnvelopeStrength s) (filterEnvelopeVelocityScaling s)
                     (linearResonance s) of
                (ended, v1) \<Rightarrow>
                  let s1 = s\<lparr>voice := (voice s)(i := v1),
                             calls := calls s @ [CallPrepToGetSamples i count ended]\<rparr> in
                  if ended then retire s1 m nn
                  else
                    (case gets (voice s1 i) count pOutLeft pOutRight m of
                       (ranOut, v2, m2) \<Rightarrow>
                         let s2 = s1\<lparr>voice := (voice s1)(i := v2),
                                     calls := calls s1 @
                                       [CallGetSamples i count pOutLeft pOutRight ranOut]\<rparr> in
                         if ranOut \<and> allowSampleRunout then retire s2 m2 nn
                         else Inr (s2, m2))))
        else Inr (s, m))"

fun render_loop ::
    "'v prepToGetSamples \<Rightarrow> ('v, 'p, 'm) getSamples \<Rightarrow> 32 word \<Rightarrow> 'p \<Rightarrow> 'p \<Rightarrow> real \<Rightarrow> real
       \<Rightarrow> bool \<Rightarrow> nat list \<Rightarrow> ('v, 'l, 'p) AKCoreSampler \<times> 'm
       \<Rightarrow> fault + ('v, 'l, 'p) AKCoreSampler \<times> 'm" where
  "render_loop prep gets count pOutLeft pOutRight pitchDev cutoffMul allowSampleRunout [] x =
     Inr x"
| "render_loop prep gets count pOutLeft pOutRight pitchDev cutoffMul allowSampleRunout (i # rest) x =
     (case render_voice prep gets count pOutLeft pOutRight pitchDev cutoffMul
             allowSampleRunout i x of
        Inl e \<Rightarrow> Inl e
      | Inr x1 \<Rightarrow>
          render_loop prep gets count pOutLeft pOutRight pitchDev cutoffMul
            allowSampleRunout rest x1)"

text \<open>
  \<open>outBuffers\<close> is the memory behind the argument \<^verbatim>\<open>float *outBuffers[]\<close>: the pointer
  at each index.
\<close>

definition render ::
    "'v prepToGetSamples \<Rightarrow> ('v, 'p, 'm) getSamples \<Rightarrow> ('l \<Rightarrow> real \<times> 'l) \<Rightarrow> 32 word
       \<Rightarrow> 32 word \<Rightarrow> (nat \<Rightarrow> 'p) \<Rightarrow> ('v, 'l, 'p) AKCoreSampler \<times> 'm
       \<Rightarrow> fault + ('v, 'l, 'p) AKCoreSampler \<times> 'm" where
  "render prep gets getSample chanCount count outBuffers =
     (\<lambda>(s, m).
        let pOutLeft = outBuffers 0;
            pOutRight = outBuffers 1;
            (vibrato, lfo) = getSample (vibratoLFO s);
            s0 = s\<lparr>vibratoLFO := lfo\<rparr>;
            pitchDev = pitchOffset s0 + vibratoDepth s0 * vibrato;
            cutoffMul = (if isFilterEnabled s0 then cutoffMultiple s0 else - 1);
            allowSampleRunout = (\<not> (isMonophonic s0 \<and> isLegato s0))
        in render_loop prep gets count pOutLeft pOutRight pitchDev cutoffMul
             allowSampleRunout [0..<MAX_POLYPHONY] (s0, m))"

text \<open>
  \<open>render_upto k\<close> is the same call stopped when its loop reaches \<^verbatim>\<open>voice[k]\<close>: the
  state in which the body of the loop finds that voice.
\<close>

definition render_upto ::
    "nat \<Rightarrow> 'v prepToGetSamples \<Rightarrow> ('v, 'p, 'm) getSamples \<Rightarrow> ('l \<Rightarrow> real \<times> 'l) \<Rightarrow> 32 word
       \<Rightarrow> 32 word \<Rightarrow> (nat \<Rightarrow> 'p) \<Rightarrow> ('v, 'l, 'p) AKCoreSampler \<times> 'm
       \<Rightarrow> fault + ('v, 'l, 'p) AKCoreSampler \<times> 'm" where
  "render_upto k prep gets getSample chanCount count outBuffers =
     (\<lambda>(s, m).
        let pOutLeft = outBuffers 0;
            pOutRight = outBuffers 1;
            (vibrato, lfo) = getSample (vibratoLFO s);
            s0 = s\<lparr>vibratoLFO := lfo\<rparr>;
            pitchDev = pitchOffset s0 + vibratoDepth s0 * vibrato;
            cutoffMul = (if isFilterEnabled s0 then cutoffMultiple s0 else - 1);
            allowSampleRunout = (\<not> (isMonophonic s0 \<and> isLegato s0))
        in render_loop prep gets count pOutLeft pOutRight pitchDev cutoffMul
             allowSampleRunout [0..<k] (s0, m))"

text \<open>The calls made between two states.\<close>

definition new_calls ::
    "('v, 'l, 'p) AKCoreSampler \<Rightarrow> ('v, 'l, 'p) AKCoreSampler \<Rightarrow> 'p call list" where
  "new_calls s s1 = drop (length (calls s)) (calls s1)"

subsection \<open>Terms of the specification\<close>

text \<open>
  Section 4.3 of the spec: a buffer is velocity-agnostic when \<open>min_velocity < 0\<close> or
  \<open>max_velocity < 0\<close>; a ranged buffer matches a velocity \<open>v\<close> when
  \<open>min_velocity \<le> v \<le> max_velocity\<close>, with \<open>v\<close> the unsigned number the caller passed.
\<close>

definition velocity_agnostic :: "KeyMappedSampleBuffer \<Rightarrow> bool" where
  "velocity_agnostic b = (sint (minimumVelocity b) < 0 \<or> sint (maximumVelocity b) < 0)"

definition in_velocity_range :: "KeyMappedSampleBuffer \<Rightarrow> 32 word \<Rightarrow> bool" where
  "in_velocity_range b v =
     (sint (minimumVelocity b) \<le> uint v \<and> uint v \<le> sint (maximumVelocity b))"

text \<open>
  Section 3 of the spec, the invariant of a buffer:
  \<open>0 \<le> start_point < end_point \<le> sample_count\<close>, and when looping
  \<open>start_point \<le> loop_start_point < loop_end_point \<le> end_point\<close>.
\<close>

definition point_invariant :: "KeyMappedSampleBuffer \<Rightarrow> bool" where
  "point_invariant b =
     (0 \<le> startPoint b \<and> startPoint b < endPoint b \<and>
      endPoint b \<le> real_of_int (sampleCount b) \<and>
      (isLooping b \<longrightarrow>
         startPoint b \<le> loopStartPoint b \<and> loopStartPoint b < loopEndPoint b \<and>
         loopEndPoint b \<le> endPoint b))"

text \<open>
  The bucket that \<open>buildSimpleKeyMap\<close> computes for the note \<open>k\<close>: the buffers of the
  bank at the distance its first scan returns.
\<close>

definition closest :: "('v, 'l, 'p) AKCoreSampler \<Rightarrow> nat \<Rightarrow> KeyMappedSampleBuffer list" where
  "closest s k =
     filter (\<lambda>b. distance b (tuningTable s k) =
                  scan_minDistance (sampleBufferList s) (tuningTable s k))
       (sampleBufferList s)"

text \<open>The calls that ask a voice for DSP work.\<close>

fun is_dsp_call :: "'p call \<Rightarrow> bool" where
  "is_dsp_call (CallPrepToGetSamples i count ended) = True"
| "is_dsp_call (CallGetSamples i count l r ranOut) = True"
| "is_dsp_call c = False"

text \<open>A call of \<^verbatim>\<open>getSamples\<close> has the output pointers \<open>l\<close> and \<open>r\<close>, in this order.\<close>

fun uses_outputs :: "'p \<Rightarrow> 'p \<Rightarrow> 'p call \<Rightarrow> bool" where
  "uses_outputs l r (CallGetSamples i count pOutLeft pOutRight ranOut) =
     (pOutLeft = l \<and> pOutRight = r)"
| "uses_outputs l r c = True"


subsection \<open>Example inputs\<close>

text \<open>
  A descriptor of four mono samples with root note \<open>n\<close> and velocity range
  \<open>lo..hi\<close>, and three descriptors that break what section 4.1 of the spec requires.
\<close>

definition example_descriptor :: "32 word \<Rightarrow> 32 word \<Rightarrow> 32 word \<Rightarrow> AKSampleDataDescriptor" where
  "example_descriptor n lo hi =
     \<lparr>sampleDescriptor =
        \<lparr>sd_noteNumber = n, sd_noteFrequency = 440,
         sd_minimumNoteNumber = 0, sd_maximumNoteNumber = 127,
         sd_minimumVelocity = lo, sd_maximumVelocity = hi,
         sd_isLooping = False, sd_loopStartPoint = 0, sd_loopEndPoint = 0,
         sd_startPoint = 0, sd_endPoint = 0\<rparr>,
      sdd_sampleRate = 44100, sdd_isInterleaved = False,
      sdd_channelCount = 1, sdd_sampleCount = 4, sdd_data = (\<lambda>i. 0)\<rparr>"

definition descriptor_no_samples :: AKSampleDataDescriptor where
  "descriptor_no_samples = (example_descriptor 60 (- 1) (- 1))\<lparr>sdd_sampleCount := 0\<rparr>"

definition descriptor_three_channels :: AKSampleDataDescriptor where
  "descriptor_three_channels = (example_descriptor 60 (- 1) (- 1))\<lparr>sdd_channelCount := 3\<rparr>"

definition descriptor_bad_loop :: AKSampleDataDescriptor where
  "descriptor_bad_loop =
     (example_descriptor 60 (- 1) (- 1))
       \<lparr>sampleDescriptor :=
          (sampleDescriptor (example_descriptor 60 (- 1) (- 1)))
            \<lparr>sd_isLooping := True, sd_loopStartPoint := 3, sd_loopEndPoint := 2\<rparr>\<rparr>"

text \<open>The sampler as the constructor leaves it.\<close>

definition new_sampler :: "(unit, unit, nat) AKCoreSampler" where
  "new_sampler = AKCoreSampler_new () () 0"

text \<open>
  \<^verbatim>\<open>setNoteFrequency(0, 2000000.0f)\<close>, then one sample with root note 69 (440 Hz) is
  loaded.
\<close>

definition retuned_sampler :: "(unit, unit, nat) AKCoreSampler" where
  "retuned_sampler =
     (case setNoteFrequency new_sampler 0 2000000 of
        Inl e \<Rightarrow> new_sampler
      | Inr s \<Rightarrow> loadSampleData s (example_descriptor 69 (- 1) (- 1)))"

text \<open>
  The buffer that \<open>loadSampleData\<close> makes of \<open>example_descriptor 60 lo hi\<close>, and a sampler
  with a bank and a valid key map whose every bucket is the whole bank.
\<close>

definition layer :: "32 word \<Rightarrow> 32 word \<Rightarrow> KeyMappedSampleBuffer" where
  "layer lo hi =
     \<lparr>sampleRate = 44100, channelCount = 1, sampleCount = 4, samples = [0, 0, 0, 0],
      startPoint = 0, endPoint = 4, isLooping = False,
      loopStartPoint = 0, loopEndPoint = 0, noteNumber = 60, noteFrequency = 440,
      minimumNoteNumber = 0, maximumNoteNumber = 127,
      minimumVelocity = lo, maximumVelocity = hi\<rparr>"

definition mapped_sampler :: "KeyMappedSampleBuffer list \<Rightarrow> (unit, unit, nat) AKCoreSampler" where
  "mapped_sampler bank =
     new_sampler\<lparr>isKeyMapValid := True, sampleBufferList := bank,
                 keyMap := (\<lambda>k. if k < 128 then bank else [])\<rparr>"

text \<open>The state \<open>s\<close> after \<^verbatim>\<open>play(note, velocity, false)\<close>.\<close>

definition after_play ::
    "(unit, unit, nat) AKCoreSampler \<Rightarrow> 32 word \<Rightarrow> 32 word \<Rightarrow> (unit, unit, nat) AKCoreSampler" where
  "after_play s note velocity = (case play s note velocity False of Inl e \<Rightarrow> s | Inr s1 \<Rightarrow> s1)"

text \<open>Two velocity layers, 0..63 and 64..100, and the key 60 sounding.\<close>

definition layered_sampler :: "(unit, unit, nat) AKCoreSampler" where
  "layered_sampler = after_play (mapped_sampler [layer 0 63, layer 64 100]) 60 10"

text \<open>One velocity-agnostic buffer; the keys 60 and 62 were played, in this order.\<close>

definition two_notes_sampler :: "(unit, unit, nat) AKCoreSampler" where
  "two_notes_sampler =
     after_play (after_play (mapped_sampler [layer (- 1) (- 1)]) 60 100) 62 100"

text \<open>The pool exhausted: \<^verbatim>\<open>voice[i]\<close> plays the note \<open>i\<close>, as after 64 notes 0..63.\<close>

definition full_sampler :: "(unit, unit, nat) AKCoreSampler" where
  "full_sampler =
     (mapped_sampler [layer (- 1) (- 1)])
       \<lparr>lastPlayedNoteNumber := 63,
        voice := (\<lambda>i. \<lparr>voiceNoteNumber = of_nat i,
                        voiceSampleBuffer = Some (layer (- 1) (- 1)), dsp = ()\<rparr>)\<rparr>"


text \<open>
  DSP for the examples: a voice that has not ended and whose sample runs out in this
  block, writing nothing; an oscillator at rest.
\<close>

definition example_prep :: "unit prepToGetSamples" where
  "example_prep v count volume pitchDev cutoffMul tracking strength scaling resonance =
     (False, v)"

definition example_gets :: "(unit, nat, unit) getSamples" where
  "example_gets v count pOutLeft pOutRight m = (True, v, m)"

definition example_lfo :: "unit \<Rightarrow> real \<times> unit" where
  "example_lfo l = (0, l)"

text \<open>Output pointers: \<^verbatim>\<open>outBuffers[0]\<close> is the address 7, every other entry the address 8.\<close>

definition example_outBuffers :: "nat \<Rightarrow> nat" where
  "example_outBuffers k = (if k = 0 then 7 else 8)"

text \<open>The key 60 held down: the state after \<^verbatim>\<open>playNote(60, 100)\<close>.\<close>

definition held_sampler :: "(unit, unit, nat) AKCoreSampler" where
  "held_sampler =
     (case playNote (mapped_sampler [layer (- 1) (- 1)]) 60 100 of
        Inl e \<Rightarrow> mapped_sampler [layer (- 1) (- 1)]
      | Inr s \<Rightarrow> s)"



section \<open>Properties\<close>

subsection \<open>lookupSample\<close>

text \<open>
  The cast \<^verbatim>\<open>(int)velocity\<close> does not change the outcome of the range test of a ranged
  buffer: a velocity of \<open>2 ^ 31\<close> or more is negative after the cast and larger than
  every \<^verbatim>\<open>int\<close> before it, and fails the test both ways.
\<close>

lemma uint_by_sint:
  fixes v :: "32 word"
  shows "uint v = (if sint v < 0 then sint v + 2 ^ 32 else sint v)"
proof -
  have u: "uint v = sint v mod 2 ^ 32"
    by (simp add: uint_sint take_bit_eq_mod)
  have lo: "- (2 ^ 31) \<le> sint v" using sint_ge [of v] by simp
  have hi: "sint v < 2 ^ 31" using sint_lt [of v] by simp
  show ?thesis
  proof (cases "sint v < 0")
    case True
    then have "(sint v + 2 ^ 32) mod 2 ^ 32 = sint v + 2 ^ 32"
      using lo by (intro mod_pos_pos_trivial) simp_all
    moreover have "(sint v + 2 ^ 32) mod 2 ^ 32 = sint v mod 2 ^ 32"
      by simp
    ultimately show ?thesis using True u by simp
  next
    case False
    then have "sint v mod 2 ^ 32 = sint v"
      using hi by simp
    with False u show ?thesis by simp
  qed
qed

lemma cast_velocity:
  fixes v mn mx :: "32 word"
  assumes "0 \<le> sint mn"
  shows "(sint mn \<le> sint v \<and> sint v \<le> sint mx) = (sint mn \<le> uint v \<and> uint v \<le> sint mx)"
proof -
  have "sint mx < 2 ^ 31" using sint_lt [of mx] by simp
  moreover have "- (2 ^ 31) \<le> sint v" using sint_ge [of v] by simp
  ultimately show ?thesis
    using assms by (auto simp: uint_by_sint)
qed

lemma lookupSample_scan_find:
  "lookupSample_scan bucket v =
     find (\<lambda>b. velocity_agnostic b \<or> in_velocity_range b v) bucket"
proof (induction bucket)
  case Nil
  show ?case by simp
next
  case (Cons b bucket)
  show ?case
  proof (cases "velocity_agnostic b")
    case True
    then show ?thesis by (auto simp: velocity_agnostic_def)
  next
    case False
    then have "0 \<le> sint (minimumVelocity b)"
      by (simp add: velocity_agnostic_def)
    from cast_velocity [OF this, of v "maximumVelocity b"] False Cons.IH
    show ?thesis
      by (simp add: velocity_agnostic_def in_velocity_range_def)
  qed
qed

text \<open>
  Claim C4. For a note \<open>k\<close> inside the key map and every velocity \<open>v\<close>: a bucket of
  exactly one buffer yields that buffer whatever \<open>v\<close> is; any other bucket yields its
  first buffer, in insertion order, that is velocity-agnostic or whose range holds \<open>v\<close>,
  and the null pointer when there is none; so a velocity-agnostic buffer at the head of
  the bucket, before any ranged one, is returned for every velocity.
\<close>

theorem lookupSample_first_match:
  assumes "unat k < MIDI_NOTENUMBERS"
  shows "(\<forall>b. keyMap s (unat k) = [b] \<longrightarrow> lookupSample s k v = Inr (Some b)) \<and>
         (length (keyMap s (unat k)) \<noteq> 1 \<longrightarrow>
            lookupSample s k v =
              Inr (find (\<lambda>b. velocity_agnostic b \<or> in_velocity_range b v) (keyMap s (unat k)))) \<and>
         (\<forall>a rest. keyMap s (unat k) = a # rest \<and> velocity_agnostic a \<longrightarrow>
            lookupSample s k v = Inr (Some a))"
proof (intro conjI allI impI)
  fix b assume "keyMap s (unat k) = [b]"
  with assms show "lookupSample s k v = Inr (Some b)"
    by (simp add: lookupSample_def)
next
  assume "length (keyMap s (unat k)) \<noteq> 1"
  with assms show "lookupSample s k v =
      Inr (find (\<lambda>b. velocity_agnostic b \<or> in_velocity_range b v) (keyMap s (unat k)))"
    by (simp add: lookupSample_def lookupSample_scan_find)
next
  fix a rest assume "keyMap s (unat k) = a # rest \<and> velocity_agnostic a"
  with assms show "lookupSample s k v = Inr (Some a)"
    by (simp add: lookupSample_def lookupSample_scan_find)
qed

theorem lookupSample_first_match_witness:
  "unat (60 :: 32 word) < MIDI_NOTENUMBERS \<and>
   length (keyMap (mapped_sampler [layer 0 63, layer 64 100]) (unat (60 :: 32 word))) \<noteq> 1 \<and>
   lookupSample (mapped_sampler [layer 0 63, layer 64 100]) 60 100 = Inr (Some (layer 64 100)) \<and>
   lookupSample (mapped_sampler [layer 0 63, layer 64 100]) 60 127 = Inr None \<and>
   lookupSample (mapped_sampler [layer 0 63]) 60 127 = Inr (Some (layer 0 63)) \<and>
   velocity_agnostic (layer (- 1) (- 1)) \<and>
   lookupSample (mapped_sampler [layer (- 1) (- 1), layer 0 63]) 60 10 =
     Inr (Some (layer (- 1) (- 1)))"
proof -
  have k: "unat (60 :: 32 word) < MIDI_NOTENUMBERS"
    by (simp add: MIDI_NOTENUMBERS_def)
  from lookupSample_first_match [OF k, of "mapped_sampler [layer 0 63, layer 64 100]" 100]
       lookupSample_first_match [OF k, of "mapped_sampler [layer 0 63, layer 64 100]" 127]
       lookupSample_first_match [OF k, of "mapped_sampler [layer 0 63]" 127]
       lookupSample_first_match [OF k, of "mapped_sampler [layer (- 1) (- 1), layer 0 63]" 10]
       k
  show ?thesis
    by (simp add: mapped_sampler_def layer_def velocity_agnostic_def in_velocity_range_def)
qed

subsection \<open>buildSimpleKeyMap\<close>

text \<open>The two scans of the bank, and the loops over the notes.\<close>

lemma scan_push_filter:
  "scan_push bank f m bucket = bucket @ filter (\<lambda>b. distance b f = m) bank"
  unfolding scan_push_def
  by (induction bank arbitrary: bucket) simp_all

lemma fold_min_Min:
  "fold (\<lambda>b (m::real). if d b < m then d b else m) bank m0 = Min (insert m0 (d ` set bank))"
proof (induction bank arbitrary: m0)
  case Nil
  show ?case by simp
next
  case (Cons b bank)
  have m: "(if d b < m0 then d b else m0) = min (d b) m0"
    by (simp add: min_def)
  have "Min (insert (min (d b) m0) (d ` set bank)) =
        Min (insert m0 (insert (d b) (d ` set bank)))"
  proof (cases "d ` set bank = {}")
    case True
    then show ?thesis by (simp add: min.commute)
  next
    case False
    then show ?thesis
      by (simp add: Min_insert min.assoc min.left_commute min.commute)
  qed
  with Cons [of "min (d b) m0"] m show ?case by simp
qed

lemma scan_minDistance_Min:
  "scan_minDistance bank f = Min (insert 1000000 ((\<lambda>b. distance b f) ` set bank))"
  unfolding scan_minDistance_def by (rule fold_min_Min)

lemma clear_fold:
  "keyMap (fold (\<lambda>i s'. s'\<lparr>keyMap := (keyMap s')(i := [])\<rparr>) xs s) k =
     (if k \<in> set xs then [] else keyMap s k) \<and>
   sampleBufferList (fold (\<lambda>i s'. s'\<lparr>keyMap := (keyMap s')(i := [])\<rparr>) xs s) =
     sampleBufferList s \<and>
   tuningTable (fold (\<lambda>i s'. s'\<lparr>keyMap := (keyMap s')(i := [])\<rparr>) xs s) = tuningTable s"
  by (induction xs arbitrary: s) simp_all

lemma clearKeyMap_fields:
  "keyMap (clearKeyMap s) k = (if k < MIDI_NOTENUMBERS then [] else keyMap s k)"
  "sampleBufferList (clearKeyMap s) = sampleBufferList s"
  "tuningTable (clearKeyMap s) = tuningTable s"
  unfolding clearKeyMap_def by (simp_all add: clear_fold)

lemma build_fold:
  "distinct xs \<Longrightarrow>
   keyMap (fold buildSimpleKeyMap_note xs s) k =
     (if k \<in> set xs then keyMap s k @ closest s k else keyMap s k) \<and>
   sampleBufferList (fold buildSimpleKeyMap_note xs s) = sampleBufferList s \<and>
   tuningTable (fold buildSimpleKeyMap_note xs s) = tuningTable s \<and>
   isKeyMapValid (fold buildSimpleKeyMap_note xs s) = isKeyMapValid s"
proof (induction xs arbitrary: s)
  case Nil
  show ?case by simp
next
  case (Cons x xs)
  then have d: "distinct xs" and x: "x \<notin> set xs" by simp_all
  have c: "closest (buildSimpleKeyMap_note x s) k = closest s k"
    by (simp add: closest_def buildSimpleKeyMap_note_def Let_def)
  have f: "sampleBufferList (buildSimpleKeyMap_note x s) = sampleBufferList s"
    "tuningTable (buildSimpleKeyMap_note x s) = tuningTable s"
    "isKeyMapValid (buildSimpleKeyMap_note x s) = isKeyMapValid s"
    "\<And>j. keyMap (buildSimpleKeyMap_note x s) j =
            (if j = x then keyMap s j @ closest s j else keyMap s j)"
    by (simp_all add: buildSimpleKeyMap_note_def Let_def scan_push_filter closest_def)
  from Cons.IH [OF d, of "buildSimpleKeyMap_note x s"] x
  show ?case by (auto simp: c f)
qed

lemma buildSimpleKeyMap_fields:
  "keyMap (buildSimpleKeyMap s) k = (if k < MIDI_NOTENUMBERS then closest s k else keyMap s k)"
  "sampleBufferList (buildSimpleKeyMap s) = sampleBufferList s"
  "tuningTable (buildSimpleKeyMap s) = tuningTable s"
  "isKeyMapValid (buildSimpleKeyMap s)"
  unfolding buildSimpleKeyMap_def Let_def
  by (simp_all add: build_fold clearKeyMap_fields closest_def)

lemma closest_subset: "set (closest s k) \<subseteq> set (sampleBufferList s)"
  by (simp add: closest_def)

text \<open>
  Where some buffer of the bank is no farther than 1000000 Hz from the note, the bucket
  holds the buffers at the minimum distance over the bank, in the order of the bank.
\<close>

lemma buildSimpleKeyMap_closest:
  assumes "k < MIDI_NOTENUMBERS"
    and "b0 \<in> set (sampleBufferList s)" and "distance b0 (tuningTable s k) \<le> 1000000"
  shows "keyMap (buildSimpleKeyMap s) k =
           filter (\<lambda>b. distance b (tuningTable s k) =
                        Min ((\<lambda>b. distance b (tuningTable s k)) ` set (sampleBufferList s)))
             (sampleBufferList s)"
proof -
  let ?D = "(\<lambda>b. distance b (tuningTable s k)) ` set (sampleBufferList s)"
  have ne: "?D \<noteq> {}" using assms(2) by auto
  have "Min ?D \<le> distance b0 (tuningTable s k)"
    using assms(2) by (intro Min_le) auto
  with assms(3) have le: "Min ?D \<le> 1000000" by linarith
  have "Min (insert 1000000 ?D) = min 1000000 (Min ?D)"
    using ne by (intro Min_insert) simp_all
  also have "\<dots> = Min ?D"
    using le by (rule min_absorb2)
  finally have "Min (insert 1000000 ?D) = Min ?D" .
  with assms(1) show ?thesis
    by (simp add: buildSimpleKeyMap_fields closest_def scan_minDistance_Min)
qed

text \<open>
  Claim C5 fails on the code. The first scan starts from \<^verbatim>\<open>minDistance = 1000000.0f\<close>,
  so when every buffer of the bank is farther than that from the note \<open>k\<close>, the scan
  returns 1000000, no buffer is at that distance, and the bucket of \<open>k\<close> stays empty,
  although the bank has buffers at its minimum distance.
\<close>

theorem buildSimpleKeyMap_beyond_sentinel:
  assumes "k < MIDI_NOTENUMBERS"
    and "\<forall>b \<in> set (sampleBufferList s). distance b (tuningTable s k) > 1000000"
  shows "keyMap (buildSimpleKeyMap s) k = []"
proof -
  have "Min (insert 1000000 ((\<lambda>b. distance b (tuningTable s k)) ` set (sampleBufferList s))) = 1000000"
    using assms(2) by (intro Min_eqI) (auto intro: less_imp_le)
  then have "scan_minDistance (sampleBufferList s) (tuningTable s k) = 1000000"
    by (simp add: scan_minDistance_Min)
  with assms show ?thesis
    by (auto simp: buildSimpleKeyMap_fields closest_def filter_empty_conv)
qed

theorem buildSimpleKeyMap_beyond_sentinel_witness:
  "(0::nat) < MIDI_NOTENUMBERS \<and>
   sampleBufferList retuned_sampler \<noteq> [] \<and>
   list_all (\<lambda>b. distance b (tuningTable retuned_sampler 0) = 1999560)
     (sampleBufferList retuned_sampler) \<and>
   keyMap (buildSimpleKeyMap retuned_sampler) 0 = []"
proof -
  have b: "sampleBufferList retuned_sampler \<noteq> []"
    by (simp add: retuned_sampler_def setNoteFrequency_def MIDI_NOTENUMBERS_def
        loadSampleData_def Let_def)
  have d: "list_all (\<lambda>b. distance b (tuningTable retuned_sampler 0) = 1999560)
     (sampleBufferList retuned_sampler)"
    by (simp add: retuned_sampler_def setNoteFrequency_def MIDI_NOTENUMBERS_def
        loadSampleData_def Let_def new_sampler_def AKCoreSampler_new_def
        example_descriptor_def distance_def NOTE_HZ_def)
  then have "\<forall>b \<in> set (sampleBufferList retuned_sampler).
      distance b (tuningTable retuned_sampler 0) > 1000000"
    by (simp add: list_all_iff)
  with buildSimpleKeyMap_beyond_sentinel [of 0 retuned_sampler] b d
  show ?thesis by (simp add: MIDI_NOTENUMBERS_def)
qed

subsection \<open>loadSampleData\<close>

text \<open>The copying loops write the samples of the buffer and nothing else.\<close>

lemma load_planar_samples_only:
  "\<exists>ys. fst (fold (load_planar sdd) xs (b, p)) = b\<lparr>samples := ys\<rparr>"
proof (induction xs arbitrary: b p)
  case Nil
  have "b = b\<lparr>samples := samples b\<rparr>" by simp
  then have "\<exists>ys. b = b\<lparr>samples := ys\<rparr>" by (rule exI)
  then show ?case by simp
next
  case (Cons x xs)
  from Cons [of "setData b x (sdd_data sdd p)" "p + 1"]
  show ?case by (auto simp: load_planar_def setData_def)
qed

lemma load_interleaved_samples_only:
  "\<exists>ys. fst (fold (load_interleaved sdd) xs (b, p)) = b\<lparr>samples := ys\<rparr>"
proof (induction xs arbitrary: b p)
  case Nil
  have "b = b\<lparr>samples := samples b\<rparr>" by simp
  then have "\<exists>ys. b = b\<lparr>samples := ys\<rparr>" by (rule exI)
  then show ?case by simp
next
  case (Cons x xs)
  show ?case
  proof (cases "sdd_channelCount sdd > 1")
    case True
    with Cons [of "setData (setData b x (sdd_data sdd p)) (nat (sdd_sampleCount sdd) + x)
                     (sdd_data sdd (p + 1))" "p + 2"]
    show ?thesis by (auto simp: load_interleaved_def setData_def Let_def)
  next
    case False
    with Cons [of "setData b x (sdd_data sdd p)" "p + 1"]
    show ?thesis by (auto simp: load_interleaved_def setData_def Let_def)
  qed
qed

text \<open>
  Claim C1, as amended. \<open>loadSampleData\<close> validates nothing and returns no status: for
  every descriptor, also one with \<open>sample_count \<le> 0\<close>, with a channel count other than
  1 or 2, or with start, end or loop points that break the invariant of a buffer, the
  call appends exactly one buffer to the end of the bank and changes nothing else of the
  sampler; the buffer carries the root note, the key range, the velocity range and the
  looping flag of the descriptor.
\<close>

theorem loadSampleData_always_appends:
  "\<exists>pBuf. loadSampleData s sdd = s\<lparr>sampleBufferList := sampleBufferList s @ [pBuf]\<rparr> \<and>
          noteNumber pBuf = sd_noteNumber (sampleDescriptor sdd) \<and>
          minimumVelocity pBuf = sd_minimumVelocity (sampleDescriptor sdd) \<and>
          maximumVelocity pBuf = sd_maximumVelocity (sampleDescriptor sdd) \<and>
          minimumNoteNumber pBuf = sd_minimumNoteNumber (sampleDescriptor sdd) \<and>
          maximumNoteNumber pBuf = sd_maximumNoteNumber (sampleDescriptor sdd) \<and>
          isLooping pBuf = sd_isLooping (sampleDescriptor sdd)"
proof -
  define b1 where "b1 = SampleBuffer_init
      (KeyMappedSampleBuffer_new
         \<lparr>minimumNoteNumber := sd_minimumNoteNumber (sampleDescriptor sdd),
          maximumNoteNumber := sd_maximumNoteNumber (sampleDescriptor sdd),
          minimumVelocity := sd_minimumVelocity (sampleDescriptor sdd),
          maximumVelocity := sd_maximumVelocity (sampleDescriptor sdd)\<rparr>)
      (sdd_sampleRate sdd) (sdd_channelCount sdd) (sdd_sampleCount sdd)"
  obtain ys where ys: "fst (fold (load_planar sdd)
      [0..<nat (sdd_channelCount sdd * sdd_sampleCount sdd)] (b1, 0)) = b1\<lparr>samples := ys\<rparr>"
    using load_planar_samples_only by blast
  obtain zs where zs: "fst (fold (load_interleaved sdd)
      [0..<nat (sdd_sampleCount sdd)] (b1, 0)) = b1\<lparr>samples := zs\<rparr>"
    using load_interleaved_samples_only by blast
  show ?thesis
    unfolding loadSampleData_def Let_def b1_def [symmetric] ys zs
    by (rule exI, rule conjI, rule refl) (simp add: b1_def SampleBuffer_init_def)
qed

text \<open>
  Claim C1 as stated fails: each of the three descriptors below is one the claim says is
  rejected (no samples; three channels; a loop that starts at 3 and ends at 2), and each
  is appended to the empty bank of a new sampler.
\<close>

theorem loadSampleData_accepts_invalid:
  "sdd_sampleCount descriptor_no_samples \<le> 0 \<and>
   length (sampleBufferList (loadSampleData new_sampler descriptor_no_samples)) = 1 \<and>
   sdd_channelCount descriptor_three_channels \<notin> {1, 2} \<and>
   length (sampleBufferList (loadSampleData new_sampler descriptor_three_channels)) = 1 \<and>
   \<not> point_invariant (last (sampleBufferList (loadSampleData new_sampler descriptor_bad_loop))) \<and>
   length (sampleBufferList (loadSampleData new_sampler descriptor_bad_loop)) = 1 \<and>
   sampleBufferList new_sampler = []"
  by (simp add: loadSampleData_def Let_def new_sampler_def AKCoreSampler_new_def
      descriptor_no_samples_def descriptor_three_channels_def descriptor_bad_loop_def
      example_descriptor_def point_invariant_def)

text \<open>\<open>example_descriptor 60 lo hi\<close> loads as \<open>layer lo hi\<close>.\<close>

lemma load_layer:
  "loadSampleData s (example_descriptor 60 lo hi) =
     s\<lparr>sampleBufferList := sampleBufferList s @ [layer lo hi]\<rparr>"
proof -
  have u: "[0..<4::nat] = [0, 1, 2, 3]" by (simp add: upt_conv_Cons)
  have r: "replicate 4 (0::real) = [0, 0, 0, 0]" by (simp add: numeral_eq_Suc)
  show ?thesis
    by (simp add: loadSampleData_def Let_def example_descriptor_def layer_def
        SampleBuffer_init_def KeyMappedSampleBuffer_new_def load_planar_def setData_def u r)
qed

text \<open>
  Claim C2, as amended. \<open>loadSampleData\<close> never writes \<^verbatim>\<open>isKeyMapValid\<close> nor the key
  map: after a load the flag and every bucket are what they were before it.
\<close>

theorem loadSampleData_keeps_isKeyMapValid:
  "isKeyMapValid (loadSampleData s sdd) = isKeyMapValid s \<and>
   keyMap (loadSampleData s sdd) = keyMap s"
  by (simp add: loadSampleData_def Let_def)

text \<open>
  Claim C2 as stated fails: a load made after \<open>buildSimpleKeyMap\<close> appends a buffer to
  the bank and the flag is still set.
\<close>

theorem loadSampleData_after_build_still_valid:
  "isKeyMapValid (buildSimpleKeyMap new_sampler) \<and>
   sampleBufferList (buildSimpleKeyMap new_sampler) = [] \<and>
   sampleBufferList
     (loadSampleData (buildSimpleKeyMap new_sampler) (example_descriptor 60 (- 1) (- 1))) =
     [layer (- 1) (- 1)] \<and>
   isKeyMapValid
     (loadSampleData (buildSimpleKeyMap new_sampler) (example_descriptor 60 (- 1) (- 1)))"
  by (simp add: load_layer buildSimpleKeyMap_fields new_sampler_def AKCoreSampler_new_def)

subsection \<open>play\<close>

lemma play_free_voice_none:
  "\<forall>i \<in> set xs. 0 \<le> sint (voiceNoteNumber (voice s i)) \<Longrightarrow>
   play_free_voice s key velocity f xs = Inr s"
  by (induction xs) simp_all

text \<open>
  Claim C8. In polyphonic mode, when no voice plays the key and none of the 64 voices
  has a negative note number, \<open>play\<close> returns the sampler as it was: no voice is
  started or restarted, no call is made, and \<^verbatim>\<open>lastPlayedNoteNumber\<close> is unchanged.
\<close>

theorem play_pool_exhausted:
  assumes "unat key < MIDI_NOTENUMBERS" and "\<not> isMonophonic s"
    and "voicePlayingNote s key = None"
    and "\<forall>i < MAX_POLYPHONY. 0 \<le> sint (voiceNoteNumber (voice s i))"
  shows "play s key velocity anotherKeyWasDown = Inr s"
  using assms by (simp add: play_def Let_def play_free_voice_none)

lemma small_word:
  fixes i :: nat
  assumes "i < 64"
  shows "sint (of_nat i :: 32 word) = int i" and "unat (of_nat i :: 32 word) = i"
proof -
  have "int i < 2 ^ 31" using assms by simp
  then show "sint (of_nat i :: 32 word) = int i"
    by (simp add: signed_of_nat signed_take_bit_int_eq_self)
  show "unat (of_nat i :: 32 word) = i"
    using assms by (simp add: unat_of_nat)
qed

theorem play_pool_exhausted_witness:
  "unat (64 :: 32 word) < MIDI_NOTENUMBERS \<and> \<not> isMonophonic full_sampler \<and>
   voicePlayingNote full_sampler 64 = None \<and>
   list_all (\<lambda>i. 0 \<le> sint (voiceNoteNumber (voice full_sampler i))) [0..<MAX_POLYPHONY] \<and>
   lastPlayedNoteNumber full_sampler = 63 \<and>
   play full_sampler 64 100 True = Inr full_sampler"
proof -
  have v: "\<And>i. voiceNoteNumber (voice full_sampler i) = of_nat i"
    by (simp add: full_sampler_def)
  have a: "\<forall>i < MAX_POLYPHONY. 0 \<le> sint (voiceNoteNumber (voice full_sampler i))"
    by (simp add: v small_word MAX_POLYPHONY_def)
  have n: "voicePlayingNote full_sampler 64 = None"
  proof -
    have "\<And>i. i < 64 \<Longrightarrow> (of_nat i :: 32 word) \<noteq> 64"
    proof
      fix i :: nat assume "i < 64" and "(of_nat i :: 32 word) = 64"
      then have "unat (of_nat i :: 32 word) = unat (64 :: 32 word)" by simp
      with \<open>i < 64\<close> show False by (simp add: small_word)
    qed
    then show ?thesis
      by (simp add: voicePlayingNote_def find_None_iff v MAX_POLYPHONY_def)
  qed
  have m: "\<not> isMonophonic full_sampler"
    by (simp add: full_sampler_def mapped_sampler_def new_sampler_def AKCoreSampler_new_def)
  have k: "unat (64 :: 32 word) < MIDI_NOTENUMBERS" by (simp add: MIDI_NOTENUMBERS_def)
  have l: "lastPlayedNoteNumber full_sampler = 63" by (simp add: full_sampler_def)
  from play_pool_exhausted [OF k m n a, of 100 True] k m n a l
  show ?thesis by (simp add: list_all_iff)
qed

text \<open>The search for a free voice starts the first idle voice, if the lookup finds a buffer.\<close>

lemma play_free_voice_find:
  "play_free_voice s key velocity f xs =
     (case find (\<lambda>i. sint (voiceNoteNumber (voice s i)) < 0) xs of
        None \<Rightarrow> Inr s
      | Some i \<Rightarrow>
          (case lookupSample s key velocity of
             Inl e \<Rightarrow> Inl e
           | Inr None \<Rightarrow> Inr s
           | Inr (Some pBuf) \<Rightarrow>
               Inr ((voice_start s i key (currentSampleRate s) f (volume_of velocity) pBuf)
                    \<lparr>lastPlayedNoteNumber := key\<rparr>)))"
  by (induction xs) simp_all

lemma mapped_fields:
  "stoppingAllVoices (mapped_sampler bank) = False"
  "isKeyMapValid (mapped_sampler bank) = True"
  "isMonophonic (mapped_sampler bank) = False"
  "sampleBufferList (mapped_sampler bank) = bank"
  "keyMap (mapped_sampler bank) k = (if k < 128 then bank else [])"
  "voice (mapped_sampler bank) i = \<lparr>voiceNoteNumber = - 1, voiceSampleBuffer = None, dsp = ()\<rparr>"
  "calls (mapped_sampler bank) = []"
  "currentSampleRate (mapped_sampler bank) = 44100"
  "tuningTable (mapped_sampler bank) 69 = 440"
  by (simp_all add: mapped_sampler_def new_sampler_def AKCoreSampler_new_def NOTE_HZ_def)

lemma after_play_fields:
  "stoppingAllVoices (after_play s n v) = stoppingAllVoices s"
  "isKeyMapValid (after_play s n v) = isKeyMapValid s"
  "isMonophonic (after_play s n v) = isMonophonic s"
  "sampleBufferList (after_play s n v) = sampleBufferList s"
  "keyMap (after_play s n v) = keyMap s"
  by (auto simp: after_play_def play_def Let_def play_free_voice_find voice_start_def
      voice_restartSameNote_def voice_restartNewNote_def voice_restartNewNoteLegato_def
      split: sum.splits option.splits)


lemma voicePlayingNote_Some:
  "voicePlayingNote s key = Some i \<Longrightarrow> i < MAX_POLYPHONY \<and> voiceNoteNumber (voice s i) = key"
  by (auto simp: voicePlayingNote_def find_Some_iff)

text \<open>
  Claim C9. Let the lookup for the key and the velocity return the null pointer, in a
  sampler that accepts notes. In polyphonic mode, when a voice already plays the key,
  \<open>play\<close> still calls \<^verbatim>\<open>restartSameNote\<close> on that voice and hands it the null pointer:
  the voice keeps the key and its buffer reference is null. Every path that starts a
  voice drops the note instead: the polyphonic path with no voice on the key, and the
  monophonic paths that look a sample up, return the sampler unchanged.
\<close>

theorem play_restartSameNote_unchecked:
  assumes "\<not> stoppingAllVoices s" and "unat key < MIDI_NOTENUMBERS"
    and "isKeyMapValid s" and "sampleBufferList s \<noteq> []"
    and "lookupSample s key velocity = Inr None"
  shows "(\<not> isMonophonic s \<and> voicePlayingNote s key = Some i \<longrightarrow>
            (\<exists>s1. play s key velocity anotherKeyWasDown = Inr s1 \<and>
                  calls s1 = calls s @ [CallRestartSameNote i (volume_of velocity) None] \<and>
                  voiceSampleBuffer (voice s1 i) = None \<and>
                  voiceNoteNumber (voice s1 i) = key)) \<and>
         (\<not> isMonophonic s \<and> voicePlayingNote s key = None \<longrightarrow>
            play s key velocity anotherKeyWasDown = Inr s) \<and>
         (isMonophonic s \<and>
          \<not> (isLegato s \<and> anotherKeyWasDown \<and> 0 \<le> sint (voiceNoteNumber (voice s 0))) \<longrightarrow>
            play s key velocity anotherKeyWasDown = Inr s)"
proof (intro conjI impI)
  assume a: "\<not> isMonophonic s \<and> voicePlayingNote s key = Some i"
  then have n: "voiceNoteNumber (voice s i) = key"
    using voicePlayingNote_Some by blast
  from a assms have "play s key velocity anotherKeyWasDown =
      Inr (voice_restartSameNote s i (volume_of velocity) None)"
    by (simp add: play_def Let_def)
  then show "\<exists>s1. play s key velocity anotherKeyWasDown = Inr s1 \<and>
      calls s1 = calls s @ [CallRestartSameNote i (volume_of velocity) None] \<and>
      voiceSampleBuffer (voice s1 i) = None \<and> voiceNoteNumber (voice s1 i) = key"
    using n by (simp add: voice_restartSameNote_def SamplerVoice_restartSameNote_def)
next
  assume "\<not> isMonophonic s \<and> voicePlayingNote s key = None"
  with assms show "play s key velocity anotherKeyWasDown = Inr s"
    by (simp add: play_def Let_def play_free_voice_find split: option.splits)
next
  assume "isMonophonic s \<and>
      \<not> (isLegato s \<and> anotherKeyWasDown \<and> 0 \<le> sint (voiceNoteNumber (voice s 0)))"
  with assms show "play s key velocity anotherKeyWasDown = Inr s"
    by (auto simp: play_def Let_def)
qed

text \<open>The example samplers, computed.\<close>

lemma voicePlayingNote_mapped: "voicePlayingNote (mapped_sampler bank) 60 = None"
  "voicePlayingNote (mapped_sampler bank) 62 = None"
  by (simp_all add: voicePlayingNote_def find_None_iff mapped_fields)

lemma u64: "[0..<MAX_POLYPHONY] = 0 # 1 # [2..<64]"
  by (simp add: MAX_POLYPHONY_def upt_conv_Cons)

lemma layered_sampler_eq:
  "layered_sampler =
     (voice_start (mapped_sampler [layer 0 63, layer 64 100]) 0 60 44100
        (tuningTable (mapped_sampler [layer 0 63, layer 64 100]) 60) (volume_of 10)
        (layer 0 63))
     \<lparr>lastPlayedNoteNumber := 60\<rparr>"
  by (simp add: layered_sampler_def after_play_def play_def Let_def play_free_voice_find
      mapped_fields voicePlayingNote_mapped u64 lookupSample_def MIDI_NOTENUMBERS_def layer_def)

lemma after_play_start:
  assumes "\<not> stoppingAllVoices s" and "unat key < MIDI_NOTENUMBERS"
    and "isKeyMapValid s" and "sampleBufferList s \<noteq> []" and "\<not> isMonophonic s"
    and "voicePlayingNote s key = None"
    and "find (\<lambda>i. sint (voiceNoteNumber (voice s i)) < 0) [0..<MAX_POLYPHONY] = Some j"
    and "lookupSample s key velocity = Inr (Some pBuf)"
  shows "after_play s key velocity =
           (voice_start s j key (currentSampleRate s) (tuningTable s (unat key))
              (volume_of velocity) pBuf)
           \<lparr>lastPlayedNoteNumber := key\<rparr>"
  using assms by (simp add: after_play_def play_def Let_def play_free_voice_find)

lemma first_note_eq:
  "after_play (mapped_sampler [layer (- 1) (- 1)]) 60 100 =
     (voice_start (mapped_sampler [layer (- 1) (- 1)]) 0 60 44100
        (tuningTable (mapped_sampler [layer (- 1) (- 1)]) 60) (volume_of 100)
        (layer (- 1) (- 1)))
     \<lparr>lastPlayedNoteNumber := 60\<rparr>"
proof -
  have "after_play (mapped_sampler [layer (- 1) (- 1)]) 60 100 =
      (voice_start (mapped_sampler [layer (- 1) (- 1)]) 0 60
         (currentSampleRate (mapped_sampler [layer (- 1) (- 1)]))
         (tuningTable (mapped_sampler [layer (- 1) (- 1)]) (unat (60 :: 32 word)))
         (volume_of 100) (layer (- 1) (- 1)))
      \<lparr>lastPlayedNoteNumber := 60\<rparr>"
    by (rule after_play_start)
       (simp_all add: mapped_fields voicePlayingNote_mapped u64 lookupSample_def
          MIDI_NOTENUMBERS_def)
  then show ?thesis by (simp add: mapped_fields)
qed

lemma first_note_fields:
  "voicePlayingNote (after_play (mapped_sampler [layer (- 1) (- 1)]) 60 100) 62 = None"
  "voiceNoteNumber (voice (after_play (mapped_sampler [layer (- 1) (- 1)]) 60 100) i) =
     (if i = 0 then 60 else - 1)"
  "currentSampleRate (after_play (mapped_sampler [layer (- 1) (- 1)]) 60 100) = 44100"
  "tuningTable (after_play (mapped_sampler [layer (- 1) (- 1)]) 60 100) =
     tuningTable (mapped_sampler [layer (- 1) (- 1)])"
  "calls (after_play (mapped_sampler [layer (- 1) (- 1)]) 60 100) =
     [CallStart 0 60 44100 (tuningTable (mapped_sampler [layer (- 1) (- 1)]) 60)
        (volume_of 100) (layer (- 1) (- 1))]"
proof -
  show v: "\<And>i. voiceNoteNumber (voice (after_play (mapped_sampler [layer (- 1) (- 1)]) 60 100) i) =
     (if i = 0 then 60 else - 1)"
    by (simp add: first_note_eq voice_start_def SamplerVoice_start_def mapped_fields)
  show "voicePlayingNote (after_play (mapped_sampler [layer (- 1) (- 1)]) 60 100) 62 = None"
    by (simp add: voicePlayingNote_def find_None_iff v)
  show "currentSampleRate (after_play (mapped_sampler [layer (- 1) (- 1)]) 60 100) = 44100"
    "tuningTable (after_play (mapped_sampler [layer (- 1) (- 1)]) 60 100) =
       tuningTable (mapped_sampler [layer (- 1) (- 1)])"
    "calls (after_play (mapped_sampler [layer (- 1) (- 1)]) 60 100) =
     [CallStart 0 60 44100 (tuningTable (mapped_sampler [layer (- 1) (- 1)]) 60)
        (volume_of 100) (layer (- 1) (- 1))]"
    by (simp_all add: first_note_eq voice_start_def mapped_fields)
qed

lemma two_notes_sampler_eq:
  "two_notes_sampler =
     (voice_start (after_play (mapped_sampler [layer (- 1) (- 1)]) 60 100) 1 62 44100
        (tuningTable (mapped_sampler [layer (- 1) (- 1)]) 62) (volume_of 100)
        (layer (- 1) (- 1)))
     \<lparr>lastPlayedNoteNumber := 62\<rparr>"
proof -
  define s1 where "s1 = after_play (mapped_sampler [layer (- 1) (- 1)]) 60 100"
  have f: "\<not> stoppingAllVoices s1" "isKeyMapValid s1" "\<not> isMonophonic s1"
    "sampleBufferList s1 \<noteq> []" "voicePlayingNote s1 62 = None"
    "currentSampleRate s1 = 44100"
    "tuningTable s1 = tuningTable (mapped_sampler [layer (- 1) (- 1)])"
    by (simp_all add: s1_def after_play_fields mapped_fields first_note_fields)
  have k: "unat (62 :: 32 word) < MIDI_NOTENUMBERS"
    by (simp add: MIDI_NOTENUMBERS_def)
  have l: "lookupSample s1 62 100 = Inr (Some (layer (- 1) (- 1)))"
    by (simp add: s1_def lookupSample_def after_play_fields mapped_fields MIDI_NOTENUMBERS_def)
  have j: "find (\<lambda>i. sint (voiceNoteNumber (voice s1 i)) < 0) [0..<MAX_POLYPHONY] = Some 1"
    by (simp add: s1_def first_note_fields u64)
  have "after_play s1 62 100 =
      (voice_start s1 1 62 (currentSampleRate s1) (tuningTable s1 (unat (62 :: 32 word)))
         (volume_of 100) (layer (- 1) (- 1)))
      \<lparr>lastPlayedNoteNumber := 62\<rparr>"
    using f(1) k f(2) f(4) f(3) f(5) j l by (rule after_play_start)
  then show ?thesis
    by (simp add: two_notes_sampler_def s1_def [symmetric] f)
qed

text \<open>
  The witness: two velocity layers 0..63 and 64..100 under the key 60, which voice 0
  plays; the key is struck again with velocity 127.
\<close>

theorem play_restartSameNote_unchecked_witness:
  "\<not> stoppingAllVoices layered_sampler \<and> unat (60 :: 32 word) < MIDI_NOTENUMBERS \<and>
   isKeyMapValid layered_sampler \<and>
   sampleBufferList layered_sampler = [layer 0 63, layer 64 100] \<and>
   keyMap layered_sampler 60 = [layer 0 63, layer 64 100] \<and>
   lookupSample layered_sampler 60 127 = Inr None \<and>
   \<not> isMonophonic layered_sampler \<and> voicePlayingNote layered_sampler 60 = Some 0 \<and>
   (\<exists>s1. play layered_sampler 60 127 False = Inr s1 \<and>
         calls s1 = calls layered_sampler @ [CallRestartSameNote 0 (volume_of 127) None] \<and>
         voiceSampleBuffer (voice s1 0) = None \<and> voiceNoteNumber (voice s1 0) = 60)"
proof -
  have f: "\<not> stoppingAllVoices layered_sampler" "isKeyMapValid layered_sampler"
    "\<not> isMonophonic layered_sampler"
    "sampleBufferList layered_sampler = [layer 0 63, layer 64 100]"
    "keyMap layered_sampler 60 = [layer 0 63, layer 64 100]"
    by (simp_all add: layered_sampler_def after_play_fields mapped_fields)
  have k: "unat (60 :: 32 word) < MIDI_NOTENUMBERS"
    by (simp add: MIDI_NOTENUMBERS_def)
  have l: "lookupSample layered_sampler 60 127 = Inr None"
    by (simp add: lookupSample_def f MIDI_NOTENUMBERS_def layer_def)
  have v: "voicePlayingNote layered_sampler 60 = Some 0"
    by (simp add: voicePlayingNote_def u64 layered_sampler_eq voice_start_def
        SamplerVoice_start_def)
  have b: "sampleBufferList layered_sampler \<noteq> []"
    by (simp add: f)
  from play_restartSameNote_unchecked [OF f(1) k f(2) b l, of 0 False] f k l v
  show ?thesis by simp
qed

text \<open>
  Claim C6 fails on the code. The polyphonic path that restarts the voice already playing
  the key returns right after \<^verbatim>\<open>restartSameNote\<close>, before the assignment that every other
  path makes: the restart is made and \<^verbatim>\<open>lastPlayedNoteNumber\<close> keeps its old value.
\<close>

theorem play_restartSameNote_keeps_lastPlayed:
  assumes "\<not> stoppingAllVoices s" and "unat key < MIDI_NOTENUMBERS"
    and "isKeyMapValid s" and "sampleBufferList s \<noteq> []"
    and "\<not> isMonophonic s" and "voicePlayingNote s key = Some i"
    and "lookupSample s key velocity = Inr pBuf"
  shows "\<exists>s1. play s key velocity anotherKeyWasDown = Inr s1 \<and>
              calls s1 = calls s @ [CallRestartSameNote i (volume_of velocity) pBuf] \<and>
              lastPlayedNoteNumber s1 = lastPlayedNoteNumber s"
  using assms by (simp add: play_def Let_def voice_restartSameNote_def)

text \<open>
  The failing input: the keys 60 and 62 were played, then 60 is struck again. Voice 0
  is restarted and the last played note is still 62.
\<close>

theorem play_restartSameNote_keeps_lastPlayed_witness:
  "\<not> stoppingAllVoices two_notes_sampler \<and> unat (60 :: 32 word) < MIDI_NOTENUMBERS \<and>
   isKeyMapValid two_notes_sampler \<and> sampleBufferList two_notes_sampler = [layer (- 1) (- 1)] \<and>
   \<not> isMonophonic two_notes_sampler \<and> voicePlayingNote two_notes_sampler 60 = Some 0 \<and>
   lookupSample two_notes_sampler 60 100 = Inr (Some (layer (- 1) (- 1))) \<and>
   lastPlayedNoteNumber two_notes_sampler = 62 \<and>
   (\<exists>s1. play two_notes_sampler 60 100 False = Inr s1 \<and>
         calls s1 = calls two_notes_sampler @
           [CallRestartSameNote 0 (volume_of 100) (Some (layer (- 1) (- 1)))] \<and>
         lastPlayedNoteNumber s1 = 62)"
proof -
  have f: "\<not> stoppingAllVoices two_notes_sampler" "isKeyMapValid two_notes_sampler"
    "\<not> isMonophonic two_notes_sampler"
    "sampleBufferList two_notes_sampler = [layer (- 1) (- 1)]"
    "keyMap two_notes_sampler 60 = [layer (- 1) (- 1)]"
    by (simp_all add: two_notes_sampler_def after_play_fields mapped_fields)
  have k: "unat (60 :: 32 word) < MIDI_NOTENUMBERS"
    by (simp add: MIDI_NOTENUMBERS_def)
  have l: "lookupSample two_notes_sampler 60 100 = Inr (Some (layer (- 1) (- 1)))"
    by (simp add: lookupSample_def f MIDI_NOTENUMBERS_def)
  have v: "voicePlayingNote two_notes_sampler 60 = Some 0"
    by (simp add: voicePlayingNote_def u64 two_notes_sampler_eq first_note_eq
        voice_start_def SamplerVoice_start_def)
  have p: "lastPlayedNoteNumber two_notes_sampler = 62"
    by (simp add: two_notes_sampler_eq)
  have b: "sampleBufferList two_notes_sampler \<noteq> []"
    by (simp add: f)
  from play_restartSameNote_keeps_lastPlayed [OF f(1) k f(2) b f(3) v l, of False] f k l v p
  show ?thesis by simp
qed

subsection \<open>stopNote\<close>

text \<open>An immediate stop, computed: the request is recorded and the first voice on the note,
  if there is one, is stopped.\<close>

lemma voicePlayingNote_calls [simp]:
  "voicePlayingNote (s\<lparr>calls := c\<rparr>) nn = voicePlayingNote s nn"
  by (simp add: voicePlayingNote_def)

lemma stopNote_immediate:
  "stopNote s nn True =
     Inr (case voicePlayingNote s nn of
            None \<Rightarrow> s\<lparr>calls := calls s @ [CallStopNote nn True]\<rparr>
          | Some j \<Rightarrow> voice_stop (s\<lparr>calls := calls s @ [CallStopNote nn True]\<rparr>) j)"
  by (simp add: stopNote_def stop_def Let_def split: option.splits)

lemma stop_keeps_pedal:
  "stop s note immediate = Inr s1 \<Longrightarrow> pedalLogic s1 = pedalLogic s"
  by (auto simp: stop_def Let_def voice_stop_def voice_release_def
      voice_restartNewNoteLegato_def voice_restartNewNote_def voice_start_def
      split: option.splits if_splits sum.splits)

text \<open>The example of a held key, computed.\<close>

lemma play_start_free:
  assumes "\<not> stoppingAllVoices s" and "unat key < MIDI_NOTENUMBERS"
    and "isKeyMapValid s" and "sampleBufferList s \<noteq> []" and "\<not> isMonophonic s"
    and "voicePlayingNote s key = None"
    and "find (\<lambda>i. sint (voiceNoteNumber (voice s i)) < 0) [0..<MAX_POLYPHONY] = Some j"
    and "lookupSample s key velocity = Inr (Some pBuf)"
  shows "play s key velocity anotherKeyWasDown =
           Inr ((voice_start s j key (currentSampleRate s) (tuningTable s (unat key))
                   (volume_of velocity) pBuf)
                \<lparr>lastPlayedNoteNumber := key\<rparr>)"
  using assms by (simp add: play_def Let_def play_free_voice_find)

lemma held_sampler_eq:
  "held_sampler =
     (voice_start
        ((mapped_sampler [layer (- 1) (- 1)])
           \<lparr>pedalLogic := keyDownAction (pedalLogic (mapped_sampler [layer (- 1) (- 1)])) 60\<rparr>)
        0 60 44100 (tuningTable (mapped_sampler [layer (- 1) (- 1)]) 60) (volume_of 100)
        (layer (- 1) (- 1)))
     \<lparr>lastPlayedNoteNumber := 60\<rparr>"
proof -
  define s0 where "s0 = (mapped_sampler [layer (- 1) (- 1)])
      \<lparr>pedalLogic := keyDownAction (pedalLogic (mapped_sampler [layer (- 1) (- 1)])) 60\<rparr>"
  have v: "voicePlayingNote s0 60 = None"
    by (simp add: s0_def voicePlayingNote_def find_None_iff mapped_fields)
  have j: "find (\<lambda>i. sint (voiceNoteNumber (voice s0 i)) < 0) [0..<MAX_POLYPHONY] = Some 0"
    by (simp add: s0_def mapped_fields u64)
  have l: "lookupSample s0 60 100 = Inr (Some (layer (- 1) (- 1)))"
    by (simp add: s0_def lookupSample_def mapped_fields MIDI_NOTENUMBERS_def)
  have "play s0 60 100 (isAnyKeyDown (pedalLogic (mapped_sampler [layer (- 1) (- 1)]))) =
      Inr ((voice_start s0 0 60 (currentSampleRate s0) (tuningTable s0 (unat (60 :: 32 word)))
              (volume_of 100) (layer (- 1) (- 1)))
           \<lparr>lastPlayedNoteNumber := 60\<rparr>)"
    by (rule play_start_free)
       (simp_all add: v j l, simp_all add: s0_def mapped_fields MIDI_NOTENUMBERS_def)
  then show ?thesis
    by (simp add: held_sampler_def playNote_def Let_def s0_def [symmetric])
       (simp add: s0_def mapped_fields)
qed

lemma held_sampler_fields:
  "voiceNoteNumber (voice held_sampler i) = (if i = 0 then 60 else - 1)"
  "keysDown (pedalLogic held_sampler) 60"
  "\<not> pedalIsDown (pedalLogic held_sampler)"
  "\<not> isMonophonic held_sampler"
  by (simp_all add: held_sampler_eq voice_start_def SamplerVoice_start_def mapped_fields
      keyDownAction_def mapped_sampler_def new_sampler_def AKCoreSampler_new_def)

lemma held_sampler_voice: "voicePlayingNote held_sampler 60 = Some 0"
  by (simp add: voicePlayingNote_def u64 held_sampler_fields)

text \<open>
  Claim C7, as amended. \<^verbatim>\<open>stopNote(key, true)\<close> does not go through the pedal logic: the
  operator \<^verbatim>\<open>||\<close> does not evaluate \<^verbatim>\<open>keyUpAction\<close> when \<open>immediate\<close> is true. The call
  always returns, leaves the whole pedal state as it was (\<open>keys_down[key]\<close> included),
  and stops the first voice playing the key, if there is one. The key-up bookkeeping is
  done by \<^verbatim>\<open>stopNote(key, false)\<close> only: when that call returns, the pedal state is the
  one \<^verbatim>\<open>keyUpAction(key)\<close> leaves.
\<close>

theorem stopNote_immediate_skips_pedal:
  "(\<exists>s1. stopNote s note True = Inr s1 \<and> pedalLogic s1 = pedalLogic s \<and>
         (case voicePlayingNote s note of
            None \<Rightarrow> voice s1 = voice s \<and> new_calls s s1 = [CallStopNote note True]
          | Some i \<Rightarrow>
              voice s1 = (voice s)(i := SamplerVoice_stop (voice s i)) \<and>
              new_calls s s1 = [CallStopNote note True, CallStop i])) \<and>
   (\<forall>s1. stopNote s note False = Inr s1 \<longrightarrow>
         pedalLogic s1 = snd (keyUpAction (pedalLogic s) (unat note)))"
proof (intro conjI allI impI)
  show "\<exists>s1. stopNote s note True = Inr s1 \<and> pedalLogic s1 = pedalLogic s \<and>
         (case voicePlayingNote s note of
            None \<Rightarrow> voice s1 = voice s \<and> new_calls s s1 = [CallStopNote note True]
          | Some i \<Rightarrow>
              voice s1 = (voice s)(i := SamplerVoice_stop (voice s i)) \<and>
              new_calls s s1 = [CallStopNote note True, CallStop i])"
    by (cases "voicePlayingNote s note")
       (simp_all add: stopNote_immediate voice_stop_def new_calls_def)
next
  fix s1 assume a: "stopNote s note False = Inr s1"
  obtain b p where k: "keyUpAction (pedalLogic s) (unat note) = (b, p)"
    by (cases "keyUpAction (pedalLogic s) (unat note)")
  show "pedalLogic s1 = snd (keyUpAction (pedalLogic s) (unat note))"
  proof (cases b)
    case True
    with a k have "stop (s\<lparr>calls := calls s @ [CallStopNote note False],
        pedalLogic := p\<rparr>) note False = Inr s1"
      by (simp add: stopNote_def Let_def)
    from stop_keeps_pedal [OF this] k show ?thesis by simp
  next
    case False
    with a k show ?thesis by (auto simp: stopNote_def Let_def)
  qed
qed

theorem stopNote_immediate_skips_pedal_witness:
  "keysDown (pedalLogic held_sampler) 60 \<and>
   (\<exists>s1. stopNote held_sampler 60 True = Inr s1 \<and> keysDown (pedalLogic s1) 60 \<and>
         new_calls held_sampler s1 = [CallStopNote 60 True, CallStop 0]) \<and>
   (\<exists>s1. stopNote held_sampler 60 False = Inr s1 \<and> \<not> keysDown (pedalLogic s1) 60)"
proof -
  have r: "stopNote held_sampler 60 False =
      Inr (voice_release
             (held_sampler\<lparr>calls := calls held_sampler @ [CallStopNote 60 False],
                pedalLogic := snd (keyUpAction (pedalLogic held_sampler) 60)\<rparr>) 0
             (loopThruRelease held_sampler))"
    by (simp add: stopNote_def Let_def keyUpAction_def held_sampler_fields stop_def
        voicePlayingNote_def u64)
  from stopNote_immediate_skips_pedal [of held_sampler 60]
  show ?thesis
    by (auto simp: r held_sampler_voice held_sampler_fields keyUpAction_def)
qed

text \<open>
  Claim C7 as stated fails: after \<^verbatim>\<open>playNote(60, 100)\<close> and \<^verbatim>\<open>stopNote(60, true)\<close> no voice
  plays the key 60 and \<open>keys_down[60]\<close> is still set.
\<close>

theorem stopNote_immediate_leaves_key_down:
  "voicePlayingNote held_sampler 60 = Some 0 \<and> keysDown (pedalLogic held_sampler) 60 \<and>
   (\<exists>s1. stopNote held_sampler 60 True = Inr s1 \<and>
         voiceNoteNumber (voice s1 0) = - 1 \<and> voicePlayingNote s1 60 = None \<and>
         keysDown (pedalLogic s1) 60)"
proof -
  have "stopNote held_sampler 60 True =
      Inr (voice_stop (held_sampler\<lparr>calls := calls held_sampler @ [CallStopNote 60 True]\<rparr>) 0)"
    by (simp add: stopNote_immediate held_sampler_voice)
  moreover have "voicePlayingNote
      (voice_stop (held_sampler\<lparr>calls := calls held_sampler @ [CallStopNote 60 True]\<rparr>) 0) 60 = None"
    by (simp add: voicePlayingNote_def find_None_iff voice_stop_def SamplerVoice_stop_def
        held_sampler_fields)
  ultimately show ?thesis
    by (simp add: held_sampler_voice held_sampler_fields voice_stop_def SamplerVoice_stop_def)
qed

subsection \<open>render\<close>

text \<open>
  One turn of the loop, by cases: what it returns, the calls it adds, and the flags it
  leaves alone.
\<close>

lemma retire_result:
  "\<exists>s1 stops. retire s m nn = Inr (s1, m) \<and>
      calls s1 = calls s @ CallStopNote nn True # stops \<and>
      (stops = [] \<or> (\<exists>j. stops = [CallStop j])) \<and>
      stoppingAllVoices s1 = stoppingAllVoices s \<and>
      isMonophonic s1 = isMonophonic s \<and> isLegato s1 = isLegato s \<and>
      pedalLogic s1 = pedalLogic s"
  by (cases "voicePlayingNote s nn")
     (simp_all add: retire_def stopNote_immediate voice_stop_def)


lemma render_voice_step:
  "\<exists>s2 m2 new. render_voice P G n pL pR pd cm allow i (s, m) = Inr (s2, m2) \<and>
     calls s2 = calls s @ new \<and>
     stoppingAllVoices s2 = stoppingAllVoices s \<and>
     isMonophonic s2 = isMonophonic s \<and> isLegato s2 = isLegato s \<and>
     (sint (voiceNoteNumber (voice s i)) < 0 \<longrightarrow> s2 = s \<and> m2 = m) \<and>
     (0 \<le> sint (voiceNoteNumber (voice s i)) \<longrightarrow>
        (CallStopNote (voiceNoteNumber (voice s i)) True \<in> set new \<longleftrightarrow>
           stoppingAllVoices s \<or> CallPrepToGetSamples i n True \<in> set new \<or>
           ((\<exists>l r. CallGetSamples i n l r True \<in> set new) \<and> allow)) \<and>
        (stoppingAllVoices s \<longrightarrow> list_all (\<lambda>c. \<not> is_dsp_call c) new)) \<and>
     list_all (uses_outputs pL pR) new"
proof -
  let ?nn = "voiceNoteNumber (voice s i)"
  show ?thesis
  proof (cases "0 \<le> sint ?nn")
    case False
    then have "render_voice P G n pL pR pd cm allow i (s, m) = Inr (s, m)"
      by (simp add: render_voice_def Let_def)
    with False show ?thesis by simp
  next
    case active: True
    show ?thesis
    proof (cases "stoppingAllVoices s")
      case True
      obtain s1 stops where r: "retire s m ?nn = Inr (s1, m)"
        "calls s1 = calls s @ CallStopNote ?nn True # stops"
        "stops = [] \<or> (\<exists>j. stops = [CallStop j])"
        "stoppingAllVoices s1 = stoppingAllVoices s"
        "isMonophonic s1 = isMonophonic s" "isLegato s1 = isLegato s"
        using retire_result [of s m ?nn] by blast
      from active True have "render_voice P G n pL pR pd cm allow i (s, m) = Inr (s1, m)"
        by (simp add: render_voice_def Let_def r(1))
      with active True r show ?thesis by auto
    next
      case running: False
      obtain ended v1 where p: "P (voice s i) n (masterVolume s) pd cm (keyTracking s)
          (cutoffEnvelopeStrength s) (filterEnvelopeVelocityScaling s) (linearResonance s) =
          (ended, v1)"
        by (cases "P (voice s i) n (masterVolume s) pd cm (keyTracking s)
          (cutoffEnvelopeStrength s) (filterEnvelopeVelocityScaling s) (linearResonance s)")
      define sp where "sp = s\<lparr>voice := (voice s)(i := v1),
          calls := calls s @ [CallPrepToGetSamples i n ended]\<rparr>"
      have rv: "render_voice P G n pL pR pd cm allow i (s, m) =
          (if ended then retire sp m ?nn
           else (case G v1 n pL pR m of
                   (ranOut, v2, m2) \<Rightarrow>
                     if ranOut \<and> allow
                     then retire (sp\<lparr>voice := (voice sp)(i := v2),
                            calls := calls sp @ [CallGetSamples i n pL pR ranOut]\<rparr>) m2 ?nn
                     else Inr (sp\<lparr>voice := (voice sp)(i := v2),
                            calls := calls sp @ [CallGetSamples i n pL pR ranOut]\<rparr>, m2)))"
        unfolding sp_def render_voice_def Let_def
        using active running p by (simp split: prod.splits)
      have fp: "calls sp = calls s @ [CallPrepToGetSamples i n ended]"
        "stoppingAllVoices sp = stoppingAllVoices s" "isMonophonic sp = isMonophonic s"
        "isLegato sp = isLegato s"
        by (simp_all add: sp_def)
      show ?thesis
      proof (cases ended)
        case True
        obtain s1 stops where r: "retire sp m ?nn = Inr (s1, m)"
          "calls s1 = calls sp @ CallStopNote ?nn True # stops"
          "stops = [] \<or> (\<exists>j. stops = [CallStop j])"
          "stoppingAllVoices s1 = stoppingAllVoices sp"
          "isMonophonic s1 = isMonophonic sp" "isLegato s1 = isLegato sp"
          using retire_result [of sp m ?nn] by blast
        from rv True r(1)
        have "render_voice P G n pL pR pd cm allow i (s, m) = Inr (s1, m)"
          by simp
        moreover have "calls s1 =
            calls s @ CallPrepToGetSamples i n True # CallStopNote ?nn True # stops"
          using r(2) True fp(1) by simp
        ultimately show ?thesis
          using active running r(3-6) fp(2-4) by auto
      next
        case notended: False
        obtain ranOut v2 m2 where g: "G v1 n pL pR m = (ranOut, v2, m2)"
          by (cases "G v1 n pL pR m")
        define sg where "sg = sp\<lparr>voice := (voice sp)(i := v2),
            calls := calls sp @ [CallGetSamples i n pL pR ranOut]\<rparr>"
        have cg: "calls sg =
            calls s @ [CallPrepToGetSamples i n False, CallGetSamples i n pL pR ranOut]"
          using notended fp(1) by (simp add: sg_def)
        have fg: "stoppingAllVoices sg = stoppingAllVoices s" "isMonophonic sg = isMonophonic s"
          "isLegato sg = isLegato s"
          by (simp_all add: sg_def fp)
        have rg: "render_voice P G n pL pR pd cm allow i (s, m) =
            (if ranOut \<and> allow then retire sg m2 ?nn else Inr (sg, m2))"
          unfolding sg_def using rv notended g by simp
        show ?thesis
        proof (cases "ranOut \<and> allow")
          case True
          obtain s1 stops where r: "retire sg m2 ?nn = Inr (s1, m2)"
            "calls s1 = calls sg @ CallStopNote ?nn True # stops"
            "stops = [] \<or> (\<exists>j. stops = [CallStop j])"
            "stoppingAllVoices s1 = stoppingAllVoices sg"
            "isMonophonic s1 = isMonophonic sg" "isLegato s1 = isLegato sg"
            using retire_result [of sg m2 ?nn] by blast
          from rg True r(1)
          have "render_voice P G n pL pR pd cm allow i (s, m) = Inr (s1, m2)"
            by simp
          moreover have "calls s1 = calls s @
              CallPrepToGetSamples i n False # CallGetSamples i n pL pR True #
              CallStopNote ?nn True # stops"
            using r(2) cg True by simp
          ultimately show ?thesis
            using active running True r(3-6) fg by auto
        next
          case False
          from rg False
          have "render_voice P G n pL pR pd cm allow i (s, m) = Inr (sg, m2)"
            by simp
          with cg active running False fg show ?thesis
            by auto
        qed
      qed
    qed
  qed
qed


lemma render_voice_frame:
  "\<exists>s2 m2 new. render_voice P G n pL pR pd cm allow i (s, m) = Inr (s2, m2) \<and>
     calls s2 = calls s @ new \<and>
     stoppingAllVoices s2 = stoppingAllVoices s \<and>
     isMonophonic s2 = isMonophonic s \<and> isLegato s2 = isLegato s \<and>
     list_all (uses_outputs pL pR) new"
  using render_voice_step [of P G n pL pR pd cm allow i s m]
  by (elim exE conjE, intro exI conjI) assumption+

lemma render_loop_result:
  "\<exists>s2 m2 new. render_loop P G n pL pR pd cm allow xs (s, m) = Inr (s2, m2) \<and>
     calls s2 = calls s @ new \<and>
     stoppingAllVoices s2 = stoppingAllVoices s \<and>
     isMonophonic s2 = isMonophonic s \<and> isLegato s2 = isLegato s \<and>
     list_all (uses_outputs pL pR) new"
proof (induction xs arbitrary: s m)
  case Nil
  have "render_loop P G n pL pR pd cm allow [] (s, m) = Inr (s, m) \<and>
     calls s = calls s @ [] \<and> stoppingAllVoices s = stoppingAllVoices s \<and>
     isMonophonic s = isMonophonic s \<and> isLegato s = isLegato s \<and>
     list_all (uses_outputs pL pR) []"
    by simp
  then show ?case by (intro exI)
next
  case (Cons i xs)
  from render_voice_frame [of P G n pL pR pd cm allow i s m]
  obtain s1 m1 new1 where a: "render_voice P G n pL pR pd cm allow i (s, m) = Inr (s1, m1)"
    "calls s1 = calls s @ new1" "stoppingAllVoices s1 = stoppingAllVoices s"
    "isMonophonic s1 = isMonophonic s" "isLegato s1 = isLegato s"
    "list_all (uses_outputs pL pR) new1"
    by (elim exE conjE)
  from Cons [of s1 m1]
  obtain s2 m2 new2 where b: "render_loop P G n pL pR pd cm allow xs (s1, m1) = Inr (s2, m2)"
    "calls s2 = calls s1 @ new2" "stoppingAllVoices s2 = stoppingAllVoices s1"
    "isMonophonic s2 = isMonophonic s1" "isLegato s2 = isLegato s1"
    "list_all (uses_outputs pL pR) new2"
    by (elim exE conjE)
  have "render_loop P G n pL pR pd cm allow (i # xs) (s, m) = Inr (s2, m2) \<and>
     calls s2 = calls s @ (new1 @ new2) \<and> stoppingAllVoices s2 = stoppingAllVoices s \<and>
     isMonophonic s2 = isMonophonic s \<and> isLegato s2 = isLegato s \<and>
     list_all (uses_outputs pL pR) (new1 @ new2)"
    by (simp add: a b)
  then show ?case by (intro exI)
qed

lemma render_loop_idle:
  "\<forall>i \<in> set xs. sint (voiceNoteNumber (voice s i)) < 0 \<Longrightarrow>
   render_loop P G n pL pR pd cm allow xs (s, m) = Inr (s, m)"
  by (induction xs) (simp_all add: render_voice_def Let_def)

lemma new_calls_append: "calls s2 = calls s @ new \<Longrightarrow> new_calls s s2 = new"
  by (simp add: new_calls_def)

lemma render_is_upto:
  "render P G L c n ob x = render_upto MAX_POLYPHONY P G L c n ob x"
  by (simp add: render_def render_upto_def)


lemma render_upto_result:
  "\<exists>s1 m1 new. render_upto i P G L c n ob (s, m) = Inr (s1, m1) \<and>
     calls s1 = calls s @ new \<and>
     stoppingAllVoices s1 = stoppingAllVoices s \<and>
     isMonophonic s1 = isMonophonic s \<and> isLegato s1 = isLegato s \<and>
     list_all (uses_outputs (ob 0) (ob 1)) new"
proof -
  obtain vib lfo where l: "L (vibratoLFO s) = (vib, lfo)"
    by (cases "L (vibratoLFO s)")
  define cm where "cm = (if isFilterEnabled s then cutoffMultiple s else - 1)"
  define s0 where "s0 = s\<lparr>vibratoLFO := lfo\<rparr>"
  have f: "calls s0 = calls s" "stoppingAllVoices s0 = stoppingAllVoices s"
    "isMonophonic s0 = isMonophonic s" "isLegato s0 = isLegato s"
    by (simp_all add: s0_def)
  have u: "render_upto i P G L c n ob (s, m) =
      render_loop P G n (ob 0) (ob 1) (pitchOffset s + vibratoDepth s * vib) cm
        (\<not> (isMonophonic s \<and> isLegato s)) [0..<i] (s0, m)"
    unfolding cm_def s0_def by (simp add: render_upto_def Let_def l)
  from render_loop_result [of P G n "ob 0" "ob 1" "pitchOffset s + vibratoDepth s * vib"
      cm "\<not> (isMonophonic s \<and> isLegato s)" "[0..<i]" s0 m]
  show ?thesis
    unfolding u f .
qed

text \<open>
  Claim C10. \<open>render\<close> never reads its argument \<^verbatim>\<open>channelCount\<close>: two calls that differ
  only in it return the same sampler state and the same output memory. The call always
  returns, and every call of \<^verbatim>\<open>getSamples\<close> it makes receives \<^verbatim>\<open>outBuffers[0]\<close> as the
  left and \<^verbatim>\<open>outBuffers[1]\<close> as the right output.
\<close>

theorem render_ignores_channelCount:
  "render P G L c1 n ob (s, m) = render P G L c2 n ob (s, m) \<and>
   (\<exists>s2 m2. render P G L c1 n ob (s, m) = Inr (s2, m2) \<and>
            list_all (uses_outputs (ob 0) (ob 1)) (new_calls s s2))"
proof
  show "render P G L c1 n ob (s, m) = render P G L c2 n ob (s, m)"
    by (simp add: render_def)
  from render_upto_result [of MAX_POLYPHONY P G L c1 n ob s m]
  obtain s2 m2 new where a: "render_upto MAX_POLYPHONY P G L c1 n ob (s, m) = Inr (s2, m2)"
    "calls s2 = calls s @ new" "list_all (uses_outputs (ob 0) (ob 1)) new"
    by (elim exE conjE)
  have "render P G L c1 n ob (s, m) = Inr (s2, m2) \<and>
      list_all (uses_outputs (ob 0) (ob 1)) (new_calls s s2)"
    using a by (simp add: render_is_upto new_calls_append)
  then show "\<exists>s2 m2. render P G L c1 n ob (s, m) = Inr (s2, m2) \<and>
      list_all (uses_outputs (ob 0) (ob 1)) (new_calls s s2)"
    by (intro exI)
qed

text \<open>
  The witness: the key 60 sounds on voice 0; \<open>render\<close> is called with one and with two
  channels, the outputs at the addresses 7 and 8.
\<close>

lemma layered_sampler_fields:
  "voiceNoteNumber (voice layered_sampler i) = (if i = 0 then 60 else - 1)"
  "\<not> stoppingAllVoices layered_sampler" "\<not> isMonophonic layered_sampler"
  "calls layered_sampler =
     [CallStart 0 60 44100 (tuningTable (mapped_sampler [layer 0 63, layer 64 100]) 60)
        (volume_of 10) (layer 0 63)]"
  by (simp_all add: layered_sampler_eq voice_start_def SamplerVoice_start_def mapped_fields)

lemma render_unfold:
  "L (vibratoLFO s) = (vib, lfo) \<Longrightarrow>
   render P G L c n ob (s, m) =
     render_loop P G n (ob 0) (ob 1) (pitchOffset s + vibratoDepth s * vib)
       (if isFilterEnabled s then cutoffMultiple s else - 1)
       (\<not> (isMonophonic s \<and> isLegato s)) [0..<MAX_POLYPHONY] (s\<lparr>vibratoLFO := lfo\<rparr>, m)"
  by (simp add: render_def Let_def)

lemma render_layered:
  "\<exists>s2. render example_prep example_gets example_lfo 1 64 example_outBuffers
          (layered_sampler, ()) = Inr (s2, ()) \<and>
        new_calls layered_sampler s2 =
          [CallPrepToGetSamples 0 64 False, CallGetSamples 0 64 7 8 True,
           CallStopNote 60 True, CallStop 0]"
proof -
  define s0 where "s0 = layered_sampler\<lparr>vibratoLFO := ()\<rparr>"
  define pd where "pd = pitchOffset layered_sampler + vibratoDepth layered_sampler * 0"
  define cm where "cm = (if isFilterEnabled layered_sampler
                         then cutoffMultiple layered_sampler else - 1)"
  have al: "(\<not> (isMonophonic layered_sampler \<and> isLegato layered_sampler)) = True"
    by (simp add: layered_sampler_fields)
  have v0: "\<And>i. voiceNoteNumber (voice s0 i) = (if i = 0 then 60 else - 1)"
    "\<not> stoppingAllVoices s0" "calls s0 = calls layered_sampler"
    by (simp_all add: s0_def layered_sampler_fields)
  have p0: "voicePlayingNote s0 60 = Some 0"
    by (simp add: voicePlayingNote_def u64 v0)
  have "\<exists>s3. render_voice example_prep example_gets 64 (example_outBuffers 0)
        (example_outBuffers 1) pd cm True 0 (s0, ()) = Inr (s3, ()) \<and>
      calls s3 = calls s0 @ [CallPrepToGetSamples 0 64 False, CallGetSamples 0 64 7 8 True,
           CallStopNote 60 True, CallStop 0] \<and>
      (\<forall>i. voiceNoteNumber (voice s3 i) = - 1)"
    by (simp add: render_voice_def Let_def v0 example_prep_def example_gets_def
        example_outBuffers_def retire_def stopNote_immediate p0 voice_stop_def
        SamplerVoice_stop_def)
  then obtain s3 where step:
    "render_voice example_prep example_gets 64 (example_outBuffers 0)
        (example_outBuffers 1) pd cm True 0 (s0, ()) = Inr (s3, ())"
    "calls s3 = calls s0 @ [CallPrepToGetSamples 0 64 False, CallGetSamples 0 64 7 8 True,
           CallStopNote 60 True, CallStop 0]"
    "\<forall>i. voiceNoteNumber (voice s3 i) = - 1"
    by blast
  have idle: "\<forall>i \<in> set (1 # [2..<64]). sint (voiceNoteNumber (voice s3 i)) < 0"
    by (simp add: step(3))
  have l: "example_lfo (vibratoLFO layered_sampler) = (0, ())"
    by (simp add: example_lfo_def)
  have "render example_prep example_gets example_lfo 1 64 example_outBuffers
          (layered_sampler, ()) =
        render_loop example_prep example_gets 64 (example_outBuffers 0)
          (example_outBuffers 1) pd cm True (0 # 1 # [2..<64]) (s0, ())"
    unfolding pd_def cm_def s0_def u64 [symmetric] al [symmetric]
    using l by (rule render_unfold)
  also have "\<dots> = render_loop example_prep example_gets 64 (example_outBuffers 0)
          (example_outBuffers 1) pd cm True (1 # [2..<64]) (s3, ())"
    by (subst render_loop.simps(2)) (simp only: step(1) sum.simps)
  also have "\<dots> = Inr (s3, ())"
    using idle by (rule render_loop_idle)
  finally have "render example_prep example_gets example_lfo 1 64 example_outBuffers
          (layered_sampler, ()) = Inr (s3, ())" .
  moreover have "new_calls layered_sampler s3 =
          [CallPrepToGetSamples 0 64 False, CallGetSamples 0 64 7 8 True,
           CallStopNote 60 True, CallStop 0]"
    by (simp add: new_calls_def step(2) v0)
  ultimately show ?thesis by blast
qed

theorem render_ignores_channelCount_witness:
  "render example_prep example_gets example_lfo 1 64 example_outBuffers (layered_sampler, ()) =
   render example_prep example_gets example_lfo 2 64 example_outBuffers (layered_sampler, ()) \<and>
   (\<exists>s2 m2. render example_prep example_gets example_lfo 1 64 example_outBuffers
              (layered_sampler, ()) = Inr (s2, m2) \<and>
            CallGetSamples 0 64 7 8 True \<in> set (new_calls layered_sampler s2) \<and>
            list_all (uses_outputs 7 8) (new_calls layered_sampler s2))"
proof -
  from render_layered obtain s3 where
    a: "render example_prep example_gets example_lfo 1 64 example_outBuffers
          (layered_sampler, ()) = Inr (s3, ())"
    "new_calls layered_sampler s3 =
          [CallPrepToGetSamples 0 64 False, CallGetSamples 0 64 7 8 True,
           CallStopNote 60 True, CallStop 0]"
    by (elim exE conjE)
  have eq: "render example_prep example_gets example_lfo 1 64 example_outBuffers
        (layered_sampler, ()) =
      render example_prep example_gets example_lfo 2 64 example_outBuffers
        (layered_sampler, ())"
    using render_ignores_channelCount [of example_prep example_gets example_lfo 1 64
      example_outBuffers layered_sampler "()" 2] by (rule conjunct1)
  have "CallGetSamples 0 64 7 8 True \<in> set (new_calls layered_sampler s3) \<and>
      list_all (uses_outputs 7 8) (new_calls layered_sampler s3)"
    by (simp add: a(2))
  with a(1) eq show ?thesis by blast
qed
























end
